theory Spec2Isabelle
  imports Complex_Main "HOL-Library.Char_ord" "HOL-Library.List_Lexorder"
begin

section \<open>SQL and Python string helpers\<close>

text \<open>
  Text values are \<^typ>\<open>string\<close>; the order on them is the lexicographic order on
  character codes, which is how SQLite compares TEXT under its default BINARY
  collation. A nullable column is an \<^typ>\<open>'a option\<close> with \<open>None\<close> for NULL.
\<close>

definition coalesce :: "'a option \<Rightarrow> 'a option \<Rightarrow> 'a option" where
  "coalesce a b = (case a of None \<Rightarrow> b | Some v \<Rightarrow> Some v)"

text \<open>SQLite's one-argument \<open>TRIM\<close> removes spaces (code 32) from both ends.\<close>

definition sql_trim :: "string \<Rightarrow> string" where
  "sql_trim s = rev (dropWhile (\<lambda>c. c = CHR '' '') (rev (dropWhile (\<lambda>c. c = CHR '' '') s)))"

text \<open>SQLite's \<open>UPPER\<close> and Python's \<open>str.upper\<close> on the letters a to z.\<close>

definition upper_char :: "char \<Rightarrow> char" where
  "upper_char c =
     (if CHR ''a'' \<le> c \<and> c \<le> CHR ''z'' then char_of (of_char c - (32::nat)) else c)"

definition sql_upper :: "string \<Rightarrow> string" where
  "sql_upper s = map upper_char s"

definition norm_key :: "string \<Rightarrow> string" where
  "norm_key s = sql_upper (sql_trim s)"

text \<open>\<open>ev_lot_location IS NULL OR TRIM(ev_lot_location) = ''\<close>.\<close>

definition sql_blank :: "string option \<Rightarrow> bool" where
  "sql_blank v = (case v of None \<Rightarrow> True | Some s \<Rightarrow> sql_trim s = [])"

text \<open>Python's \<open>str.strip()\<close>: whitespace is removed from both ends.\<close>

definition py_isspace :: "char \<Rightarrow> bool" where
  "py_isspace c =
     (let n = (of_char c :: nat)
      in (9 \<le> n \<and> n \<le> 13) \<or> (28 \<le> n \<and> n \<le> 32) \<or> n = 133 \<or> n = 160)"

definition py_strip :: "string \<Rightarrow> string" where
  "py_strip s = rev (dropWhile py_isspace (rev (dropWhile py_isspace s)))"

definition py_upper :: "string \<Rightarrow> string" where
  "py_upper s = map upper_char s"

definition startswith :: "string \<Rightarrow> string \<Rightarrow> bool" where
  "startswith s p = (take (length p) s = p)"

section \<open>Tables\<close>

text \<open>
  A table is the list of its rows in insertion order. \<open>upsert\<close> is the only
  writer of \<open>carpark_availability\<close> and of its history. It binds
  \<open>cp.get("carpark_number")\<close>, \<open>info.get("lot_type")\<close> and
  \<open>cp.get("update_datetime")\<close> as they come, so these columns are NULL when the
  feed leaves the field out; \<open>lots_available\<close> is the result of \<open>int()\<close> and the
  two stamps are the text of the clock, never NULL.
\<close>

text \<open>
  SQL's \<open>=\<close> as a \<open>WHERE\<close> clause and a uniqueness check read it: true only when
  neither side is NULL and both sides are equal.
\<close>

definition sql_eq :: "'a option \<Rightarrow> 'a option \<Rightarrow> bool" where
  "sql_eq a b = (a \<noteq> None \<and> b \<noteq> None \<and> a = b)"

record avail_row =
  a_carpark_number :: "string option"
  a_lot_type :: "string option"
  a_lots_available :: int
  a_update_datetime :: "string option"
  a_last_seen_at :: string
  a_total_lots :: "int option"

record hist_row =
  h_carpark_number :: "string option"
  h_lot_type :: "string option"
  h_lots_available :: int
  h_update_datetime :: "string option"
  h_retrieved_at :: string

definition a_key :: "avail_row \<Rightarrow> string option \<times> string option" where
  "a_key r = (a_carpark_number r, a_lot_type r)"

definition h_key :: "hist_row \<Rightarrow> string option \<times> string option \<times> string option" where
  "h_key r = (h_carpark_number r, h_lot_type r, h_update_datetime r)"

text \<open>
  The primary key \<open>(carpark_number, lot_type)\<close> of \<open>carpark_availability\<close>, an
  ordinary rowid table: SQLite takes a NULL in a key column for distinct from every
  value, so a stored row conflicts with a new key only when no column of the new
  key is NULL and the row has that key.
\<close>

definition pk_conflict :: "avail_row \<Rightarrow> string option \<Rightarrow> string option \<Rightarrow> bool" where
  "pk_conflict r cp_no lot_type =
     (cp_no \<noteq> None \<and> lot_type \<noteq> None \<and> a_key r = (cp_no, lot_type))"

section \<open>Snapshot upsert\<close>

definition new_avail_row ::
  "string option \<Rightarrow> string option \<Rightarrow> int \<Rightarrow> int option \<Rightarrow> string option \<Rightarrow> string
     \<Rightarrow> avail_row" where
  "new_avail_row cp_no lot_type lots_avail total_lots upd seen =
     \<lparr>a_carpark_number = cp_no, a_lot_type = lot_type, a_lots_available = lots_avail,
      a_update_datetime = upd, a_last_seen_at = seen, a_total_lots = total_lots\<rparr>"

text \<open>
  \<open>INSERT ... ON CONFLICT(carpark_number, lot_type) DO UPDATE SET ...\<close>: when a row
  conflicts with the new key it is updated, with
  \<open>total_lots = COALESCE(carpark_availability.total_lots, excluded.total_lots)\<close>;
  otherwise the row is inserted.
\<close>

definition on_conflict_upsert ::
  "avail_row list \<Rightarrow> string option \<Rightarrow> string option \<Rightarrow> int \<Rightarrow> int option \<Rightarrow> string option
     \<Rightarrow> string \<Rightarrow> avail_row list" where
  "on_conflict_upsert tbl cp_no lot_type lots_avail total_lots upd seen =
     (if list_ex (\<lambda>r. pk_conflict r cp_no lot_type) tbl
      then map (\<lambda>r. if pk_conflict r cp_no lot_type
                     then r\<lparr>a_lots_available := lots_avail,
                            a_total_lots := coalesce (a_total_lots r) total_lots,
                            a_update_datetime := upd,
                            a_last_seen_at := seen\<rparr>
                     else r) tbl
      else tbl @ [new_avail_row cp_no lot_type lots_avail total_lots upd seen])"

text \<open>
  The fallback: \<open>UPDATE ... WHERE carpark_number = ? AND lot_type = ?\<close> with
  \<open>total_lots = CASE WHEN total_lots IS NULL THEN ? ELSE total_lots END\<close>, then an
  \<open>INSERT\<close> when \<open>cur.rowcount == 0\<close>.
\<close>

definition fallback_update ::
  "avail_row list \<Rightarrow> string option \<Rightarrow> string option \<Rightarrow> int \<Rightarrow> int option \<Rightarrow> string option
     \<Rightarrow> string \<Rightarrow> avail_row list \<times> nat" where
  "fallback_update tbl cp_no lot_type lots_avail total_lots upd seen =
     (map (\<lambda>r. if sql_eq (a_carpark_number r) cp_no \<and> sql_eq (a_lot_type r) lot_type
                then r\<lparr>a_lots_available := lots_avail,
                       a_total_lots := (if a_total_lots r = None then total_lots
                                        else a_total_lots r),
                       a_update_datetime := upd,
                       a_last_seen_at := seen\<rparr>
                else r) tbl,
      length (filter (\<lambda>r. sql_eq (a_carpark_number r) cp_no \<and> sql_eq (a_lot_type r) lot_type)
                tbl))"

definition fallback_upsert ::
  "avail_row list \<Rightarrow> string option \<Rightarrow> string option \<Rightarrow> int \<Rightarrow> int option \<Rightarrow> string option
     \<Rightarrow> string \<Rightarrow> avail_row list" where
  "fallback_upsert tbl cp_no lot_type lots_avail total_lots upd seen =
     (case fallback_update tbl cp_no lot_type lots_avail total_lots upd seen of
        (tbl', rowcount) \<Rightarrow>
          if rowcount = 0
          then tbl' @ [new_avail_row cp_no lot_type lots_avail total_lots upd seen]
          else tbl')"

text \<open>
  \<open>upsert_snapshot\<close>. \<open>on_conflict_ok\<close> says whether the SQLite runtime parses the
  \<open>ON CONFLICT\<close> clause; when it does not, the statement raises
  \<open>near "ON": syntax error\<close>, the global \<open>use_legacy_upsert\<close> is set and the
  fallback runs. The result is the table and the new value of the global.
\<close>

definition upsert_snapshot ::
  "bool \<Rightarrow> bool \<Rightarrow> avail_row list \<Rightarrow> string option \<Rightarrow> string option \<Rightarrow> int \<Rightarrow> int option
     \<Rightarrow> string option \<Rightarrow> string \<Rightarrow> avail_row list \<times> bool" where
  "upsert_snapshot on_conflict_ok use_legacy_upsert tbl cp_no lot_type lots_avail total_lots
       upd seen =
     (if \<not> use_legacy_upsert
      then (if on_conflict_ok
            then (on_conflict_upsert tbl cp_no lot_type lots_avail total_lots upd seen,
                  use_legacy_upsert)
            else (fallback_upsert tbl cp_no lot_type lots_avail total_lots upd seen, True))
      else (fallback_upsert tbl cp_no lot_type lots_avail total_lots upd seen,
            use_legacy_upsert))"

section \<open>The availability feed\<close>

text \<open>
  A field of a feed object as \<open>dict.get\<close> and \<open>int()\<close> see it: the key is absent, the
  value is JSON null, the empty string, something \<open>int()\<close> parses, or something
  \<open>int()\<close> rejects.
\<close>

datatype raw = Absent | Null | Blank | Numeric int | Garbage

datatype error = ValueError | TypeError | IntegrityError

text \<open>\<open>int(info.get("lots_available", 0))\<close>.\<close>

fun parse_lots_available :: "raw \<Rightarrow> error + int" where
  "parse_lots_available Absent = Inr 0"
| "parse_lots_available Null = Inl TypeError"
| "parse_lots_available Blank = Inl ValueError"
| "parse_lots_available (Numeric n) = Inr n"
| "parse_lots_available Garbage = Inl ValueError"

text \<open>
  \<open>int(raw_total) if raw_total not in (None, "") else None\<close>, with every exception of
  \<open>int()\<close> turned into \<open>None\<close>.
\<close>

fun parse_total_lots :: "raw \<Rightarrow> int option" where
  "parse_total_lots Absent = None"
| "parse_total_lots Null = None"
| "parse_total_lots Blank = None"
| "parse_total_lots (Numeric n) = Some n"
| "parse_total_lots Garbage = None"

text \<open>
  The objects of the feed. \<open>info.get("lot_type")\<close>, \<open>cp.get("carpark_number")\<close> and
  \<open>cp.get("update_datetime")\<close> are \<open>None\<close> when the field is absent or null.
\<close>

record lot_info =
  li_lot_type :: "string option"
  li_lots_available :: raw
  li_total_lots :: raw

record carpark =
  cp_carpark_number :: "string option"
  cp_update_datetime :: "string option"
  cp_carpark_info :: "lot_info list"

text \<open>
  The payload: \<open>payload.get("items", [])\<close> is \<open>None\<close> when the key is absent, and each
  item's \<open>carpark_data\<close> likewise.
\<close>

type_synonym payload = "carpark list option list option"

definition payload_carparks :: "payload \<Rightarrow> carpark list" where
  "payload_carparks p =
     (let items = (case p of None \<Rightarrow> [] | Some xs \<Rightarrow> xs)
      in case items of
           [] \<Rightarrow> []
         | item # _ \<Rightarrow> (case item of None \<Rightarrow> [] | Some cps \<Rightarrow> cps))"

section \<open>History\<close>

text \<open>
  \<open>INSERT OR IGNORE INTO carpark_availability_history\<close> under the unique index
  \<open>idx_hist_unique(carpark_number, lot_type, update_datetime)\<close>: the result is the
  table and \<open>cur.rowcount\<close>. A unique index takes a NULL for distinct from every
  value: the row is ignored only when none of the three columns of the new row is
  NULL and a stored row has the three values.
\<close>

definition insert_or_ignore_history ::
  "hist_row list \<Rightarrow> string option \<Rightarrow> string option \<Rightarrow> int \<Rightarrow> string option \<Rightarrow> string
     \<Rightarrow> hist_row list \<times> nat"
  where
  "insert_or_ignore_history hist cp_no lot_type lots_avail upd retrieved_at =
     (if cp_no \<noteq> None \<and> lot_type \<noteq> None \<and> upd \<noteq> None \<and>
         list_ex (\<lambda>r. h_key r = (cp_no, lot_type, upd)) hist
      then (hist, 0)
      else (hist @ [\<lparr>h_carpark_number = cp_no, h_lot_type = lot_type,
                      h_lots_available = lots_avail, h_update_datetime = upd,
                      h_retrieved_at = retrieved_at\<rparr>], 1))"

section \<open>The ingestion cycle\<close>

text \<open>
  The state of the open transaction of \<open>upsert\<close>: both tables, the global
  \<open>use_legacy_upsert\<close> and the counter \<open>history_inserts\<close>.
\<close>

record txn =
  t_avail :: "avail_row list"
  t_hist :: "hist_row list"
  t_legacy :: bool
  t_inserts :: nat

text \<open>
  The body of the inner loop for one \<open>info\<close>. An exception leaves the loops; it
  carries the value of the global, which a rollback does not restore.
\<close>

definition upsert_lot ::
  "bool \<Rightarrow> string \<Rightarrow> string option \<Rightarrow> string option \<Rightarrow> lot_info \<Rightarrow> txn
     \<Rightarrow> (error \<times> bool) + txn" where
  "upsert_lot on_conflict_ok retrieved_at cp_no upd info t =
     (case parse_lots_available (li_lots_available info) of
        Inl e \<Rightarrow> Inl (e, t_legacy t)
      | Inr lots_avail \<Rightarrow>
          (case upsert_snapshot on_conflict_ok (t_legacy t) (t_avail t) cp_no (li_lot_type info)
                  lots_avail (parse_total_lots (li_total_lots info)) upd retrieved_at of
             (tbl, legacy) \<Rightarrow>
               (case insert_or_ignore_history (t_hist t) cp_no (li_lot_type info) lots_avail upd
                       retrieved_at of
                  (hist, rowcount) \<Rightarrow>
                    Inr \<lparr>t_avail = tbl, t_hist = hist, t_legacy = legacy,
                         t_inserts = t_inserts t + rowcount\<rparr>)))"

fun upsert_lots ::
  "bool \<Rightarrow> string \<Rightarrow> string option \<Rightarrow> string option \<Rightarrow> lot_info list \<Rightarrow> txn
     \<Rightarrow> (error \<times> bool) + txn" where
  "upsert_lots ok retrieved_at cp_no upd [] t = Inr t"
| "upsert_lots ok retrieved_at cp_no upd (info # infos) t =
     (case upsert_lot ok retrieved_at cp_no upd info t of
        Inl e \<Rightarrow> Inl e
      | Inr t' \<Rightarrow> upsert_lots ok retrieved_at cp_no upd infos t')"

fun upsert_carparks ::
  "bool \<Rightarrow> string \<Rightarrow> carpark list \<Rightarrow> txn \<Rightarrow> (error \<times> bool) + txn" where
  "upsert_carparks ok retrieved_at [] t = Inr t"
| "upsert_carparks ok retrieved_at (cp # cps) t =
     (case upsert_lots ok retrieved_at (cp_carpark_number cp) (cp_update_datetime cp)
             (cp_carpark_info cp) t of
        Inl e \<Rightarrow> Inl e
      | Inr t' \<Rightarrow> upsert_carparks ok retrieved_at cps t')"

section \<open>Facility metadata and the joined view\<close>

text \<open>The static columns of \<open>carpark_info\<close>, copied into the joined view.\<close>

record static_cols =
  s_address :: "string option"
  s_x_coord :: "string option"
  s_y_coord :: "string option"
  s_car_park_type :: "string option"
  s_type_of_parking_system :: "string option"
  s_short_term_parking :: "string option"
  s_free_parking :: "string option"
  s_night_parking :: "string option"
  s_car_park_decks :: "string option"
  s_gantry_height :: "string option"
  s_car_park_basement :: "string option"

record info_row =
  i_carpark_number :: string
  i_static :: static_cols
  i_updated_at :: "string option"
  i_is_central :: "int option"
  i_carpark_rate :: "real option"
  i_current_rate_30min :: "real option"
  i_active_cap_type :: "string option"
  i_active_cap_amount :: "real option"
  i_rate_updated_at :: "string option"

record join_row =
  j_carpark_number :: "string option"
  j_lot_type :: "string option"
  j_lots_available :: int
  j_total_lots :: "int option"
  j_update_datetime :: "string option"
  j_static :: static_cols
  j_carpark_rate :: "real option"
  j_current_rate_30min :: "real option"
  j_active_cap_type :: "string option"
  j_active_cap_amount :: "real option"
  j_ev_lot_location :: "string option"
  j_has_info :: int

definition j_key :: "join_row \<Rightarrow> string option \<times> string option" where
  "j_key r = (j_carpark_number r, j_lot_type r)"

definition null_static :: static_cols where
  "null_static =
     \<lparr>s_address = None, s_x_coord = None, s_y_coord = None, s_car_park_type = None,
      s_type_of_parking_system = None, s_short_term_parking = None, s_free_parking = None,
      s_night_parking = None, s_car_park_decks = None, s_gantry_height = None,
      s_car_park_basement = None\<rparr>"

text \<open>The store: the four tables and the process global \<open>use_legacy_upsert\<close>.\<close>

record store =
  avail :: "avail_row list"
  history :: "hist_row list"
  info :: "info_row list"
  joined :: "join_row list"
  use_legacy_upsert :: bool

definition empty_store :: store where
  "empty_store = \<lparr>avail = [], history = [], info = [], joined = [], use_legacy_upsert = False\<rparr>"

record stats =
  seen_carparks :: nat
  snapshot_rows :: nat
  history_inserts :: nat
  mirror_deleted :: nat
  legacy_upsert :: bool

text \<open>
  \<open>upsert(payload)\<close>. \<open>strict_mirror\<close> is \<open>SNAPSHOT_STRICT_MIRROR\<close> and \<open>retrieved_at\<close>
  the clock reading taken at the start of the call. An exception rolls the
  transaction back: the tables are as before.
\<close>

definition upsert :: "bool \<Rightarrow> bool \<Rightarrow> string \<Rightarrow> payload \<Rightarrow> store \<Rightarrow> store \<times> (error + stats)" where
  "upsert strict_mirror on_conflict_ok retrieved_at payload s =
     (let carparks = payload_carparks payload
      in case upsert_carparks on_conflict_ok retrieved_at carparks
                \<lparr>t_avail = avail s, t_hist = history s, t_legacy = use_legacy_upsert s,
                 t_inserts = 0\<rparr> of
           Inl (e, legacy) \<Rightarrow> (s\<lparr>use_legacy_upsert := legacy\<rparr>, Inl e)
         | Inr t \<Rightarrow>
             (let remaining =
                    (if strict_mirror
                     then filter (\<lambda>r. \<not> a_last_seen_at r < retrieved_at) (t_avail t)
                     else t_avail t);
                  deleted =
                    (if strict_mirror
                     then length (filter (\<lambda>r. a_last_seen_at r < retrieved_at) (t_avail t))
                     else 0)
              in (s\<lparr>avail := remaining, history := t_hist t, use_legacy_upsert := t_legacy t\<rparr>,
                  Inr \<lparr>seen_carparks = length carparks, snapshot_rows = length remaining,
                       history_inserts = t_inserts t, mirror_deleted = deleted,
                       legacy_upsert = t_legacy t\<rparr>)))"

section \<open>Pricing\<close>

definition CENTRAL :: "string list" where
  "CENTRAL = [''ACB'', ''BBB'', ''BRB1'', ''CY'', ''DUXM'', ''HLM'', ''KAB'', ''KAM'', ''KAS'',
              ''PRM'', ''SLS'', ''SR1'', ''SR2'', ''TPM'', ''UCS'', ''WCB'']"

text \<open>\<open>mark_central_and_base_rates\<close>: two \<open>UPDATE\<close>s over all of \<open>carpark_info\<close>.\<close>

definition mark_central_and_base_rates :: "info_row list \<Rightarrow> info_row list" where
  "mark_central_and_base_rates tbl =
     map (\<lambda>r. r\<lparr>i_carpark_rate := Some (if i_is_central r = Some 1 then 1.2 else 0.6)\<rparr>)
       (map (\<lambda>r. r\<lparr>i_is_central :=
                       Some (if i_carpark_number r \<in> set CENTRAL then 1 else 0)\<rparr>) tbl)"

text \<open>
  \<open>refresh_time_dependent_rates\<close>. \<open>wk\<close>, \<open>hh\<close> and \<open>mm\<close> are the weekday (Monday is
  0), hour and minute of the Singapore clock, \<open>now\<close> the UTC text written to
  \<open>rate_updated_at\<close> (the pass is taken to end within the clock second in which
  it starts, so that every row gets the same text).
\<close>

definition in_night :: "nat \<Rightarrow> nat \<Rightarrow> bool" where
  "in_night hh mm = ((hh > 22 \<or> (hh = 22 \<and> mm \<ge> 30)) \<or> hh < 7)"

definition in_day :: "nat \<Rightarrow> nat \<Rightarrow> bool" where
  "in_day hh mm = ((hh > 7 \<or> (hh = 7 \<and> mm \<ge> 0)) \<and> (hh < 22 \<or> (hh = 22 \<and> mm < 30)))"

text \<open>\<open>1 if is_central else 0\<close>: Python's truth value of the fetched column.\<close>

definition central_flag :: "int option \<Rightarrow> bool" where
  "central_flag v = (case v of None \<Rightarrow> False | Some n \<Rightarrow> n \<noteq> 0)"

text \<open>\<open>(night_parking or "").strip().upper().startswith("YES")\<close>.\<close>

definition nps_of :: "string option \<Rightarrow> bool" where
  "nps_of v =
     startswith (py_upper (py_strip (case v of None \<Rightarrow> [] | Some s \<Rightarrow> s))) ''YES''"

definition current_rate_of :: "bool \<Rightarrow> nat \<Rightarrow> nat \<Rightarrow> real" where
  "current_rate_of is_central wk hh =
     (if is_central \<and> wk \<le> 5 \<and> (7 \<le> hh \<and> hh < 17) then 1.2 else 0.6)"

definition cap_of :: "bool \<Rightarrow> bool \<Rightarrow> nat \<Rightarrow> nat \<Rightarrow> string option \<times> real option" where
  "cap_of is_central nps hh mm =
     (if nps \<and> in_night hh mm then (Some ''NPS_NIGHT_CAP'', Some 5.0)
      else if in_day hh mm then (Some ''DAY_CAP'', Some (if is_central then 20.0 else 12.0))
      else (None, None))"

text \<open>
  The body of the loop for one fetched row \<open>(cp_no, is_central, night_parking)\<close>: the
  \<open>UPDATE carpark_info ... WHERE carpark_number = ?\<close>.
\<close>

definition price_row ::
  "nat \<Rightarrow> nat \<Rightarrow> nat \<Rightarrow> string \<Rightarrow> string \<times> int option \<times> string option \<Rightarrow> info_row list
     \<Rightarrow> info_row list" where
  "price_row wk hh mm now fetched tbl =
     (case fetched of
        (cp_no, is_central, night_parking) \<Rightarrow>
          (let central = central_flag is_central;
               nps = nps_of night_parking;
               current_rate = current_rate_of central wk hh;
               cap = cap_of central nps hh mm
           in map (\<lambda>r. if i_carpark_number r = cp_no
                          then r\<lparr>i_current_rate_30min := Some current_rate,
                                 i_active_cap_type := fst cap,
                                 i_active_cap_amount := snd cap,
                                 i_rate_updated_at := Some now\<rparr>
                          else r) tbl))"

definition refresh_time_dependent_rates ::
  "nat \<Rightarrow> nat \<Rightarrow> nat \<Rightarrow> string \<Rightarrow> info_row list \<Rightarrow> info_row list" where
  "refresh_time_dependent_rates wk hh mm now tbl =
     fold (price_row wk hh mm now)
       (map (\<lambda>r. (i_carpark_number r, i_is_central r, s_night_parking (i_static r))) tbl) tbl"

section \<open>Metadata ingestion\<close>

text \<open>
  A record of the metadata source is a dictionary: a key is absent (\<open>None\<close>), bound to
  JSON null (\<open>Some None\<close>) or bound to a text.
\<close>

type_synonym api_record = "string \<Rightarrow> string option option"

definition rec_get :: "api_record \<Rightarrow> string \<Rightarrow> string option" where
  "rec_get rec k = (case rec k of None \<Rightarrow> None | Some v \<Rightarrow> v)"

definition rec_get_default :: "api_record \<Rightarrow> string \<Rightarrow> string \<Rightarrow> string option" where
  "rec_get_default rec k d = (case rec k of None \<Rightarrow> Some d | Some v \<Rightarrow> v)"

text \<open>Python's \<open>a or b\<close> on values that are \<open>None\<close> or a string.\<close>

definition py_or :: "string option \<Rightarrow> string option \<Rightarrow> string option" where
  "py_or a b = (case a of None \<Rightarrow> b | Some x \<Rightarrow> if x = [] then b else Some x)"

text \<open>
  \<open>(rec.get("car_park_no") or rec.get("carpark_number") or "").strip().upper()\<close>.
\<close>

definition record_cp :: "api_record \<Rightarrow> string" where
  "record_cp rec =
     py_upper (py_strip
       (case py_or (py_or (rec_get rec ''car_park_no'') (rec_get rec ''carpark_number''))
               (Some []) of
          None \<Rightarrow> []
        | Some x \<Rightarrow> x))"

text \<open>
  The row of the \<open>INSERT INTO carpark_info(...)\<close>: the column list names the static
  columns and \<open>updated_at\<close>, so the six pricing columns take their default, NULL.
\<close>

definition info_row_of :: "string \<Rightarrow> string \<Rightarrow> api_record \<Rightarrow> info_row" where
  "info_row_of now cp rec =
     \<lparr>i_carpark_number = cp,
      i_static =
        \<lparr>s_address = rec_get_default rec ''address'' [],
         s_x_coord = rec_get_default rec ''x_coord'' [],
         s_y_coord = rec_get_default rec ''y_coord'' [],
         s_car_park_type = rec_get_default rec ''car_park_type'' [],
         s_type_of_parking_system = rec_get_default rec ''type_of_parking_system'' [],
         s_short_term_parking = rec_get_default rec ''short_term_parking'' [],
         s_free_parking = rec_get_default rec ''free_parking'' [],
         s_night_parking = rec_get_default rec ''night_parking'' [],
         s_car_park_decks = rec_get_default rec ''car_park_decks'' [],
         s_gantry_height = rec_get_default rec ''gantry_height'' [],
         s_car_park_basement = rec_get_default rec ''car_park_basement'' []\<rparr>,
      i_updated_at = Some now,
      i_is_central = None, i_carpark_rate = None, i_current_rate_30min = None,
      i_active_cap_type = None, i_active_cap_amount = None, i_rate_updated_at = None\<rparr>"

text \<open>
  The loop over \<open>records\<close>, run on the table emptied by \<open>DELETE FROM carpark_info\<close>.
  \<open>carpark_number\<close> is the primary key: inserting a number already there raises.
\<close>

fun insert_info_records ::
  "string \<Rightarrow> api_record list \<Rightarrow> info_row list \<Rightarrow> nat \<Rightarrow> error + (info_row list \<times> nat)" where
  "insert_info_records now [] tbl rows = Inr (tbl, rows)"
| "insert_info_records now (rec # recs) tbl rows =
     (let cp = record_cp rec
      in if cp = [] then insert_info_records now recs tbl rows
         else if list_ex (\<lambda>r. i_carpark_number r = cp) tbl then Inl IntegrityError
         else insert_info_records now recs (tbl @ [info_row_of now cp rec]) (rows + 1))"

definition load_info_into_sqlite ::
  "string \<Rightarrow> api_record list \<Rightarrow> info_row list \<Rightarrow> info_row list \<times> (error + nat)" where
  "load_info_into_sqlite now records tbl =
     (case insert_info_records now records [] 0 of
        Inl e \<Rightarrow> (tbl, Inl e)
      | Inr (tbl', rows) \<Rightarrow> (tbl', Inr rows))"

section \<open>The join materializer\<close>

text \<open>
  \<open>FROM carpark_availability AS a LEFT JOIN carpark_info AS i
  ON UPPER(TRIM(a.carpark_number)) = i.carpark_number\<close>: the rows of \<open>i\<close> that match
  \<open>a\<close>; when there is none, \<open>a\<close> is kept once with every column of \<open>i\<close> NULL.
  \<open>UPPER(TRIM(NULL))\<close> is NULL and matches no row. The numbers of \<open>carpark_info\<close>
  are text: \<open>load_info_into_sqlite\<close>, its only writer, skips a record without one.
\<close>

definition join_matches :: "avail_row \<Rightarrow> info_row list \<Rightarrow> info_row list" where
  "join_matches a tbl =
     filter (\<lambda>i. sql_eq (map_option norm_key (a_carpark_number a)) (Some (i_carpark_number i)))
       tbl"

text \<open>The \<open>SELECT\<close> list of \<open>rebuild_join_snapshot\<close>; \<open>ev_lot_location\<close> is not in it.\<close>

definition snapshot_select :: "avail_row \<Rightarrow> info_row option \<Rightarrow> join_row" where
  "snapshot_select a m =
     \<lparr>j_carpark_number = a_carpark_number a, j_lot_type = a_lot_type a,
      j_lots_available = a_lots_available a, j_total_lots = a_total_lots a,
      j_update_datetime = a_update_datetime a,
      j_static = (case m of None \<Rightarrow> null_static | Some i \<Rightarrow> i_static i),
      j_carpark_rate = (case m of None \<Rightarrow> None | Some i \<Rightarrow> i_carpark_rate i),
      j_current_rate_30min = (case m of None \<Rightarrow> None | Some i \<Rightarrow> i_current_rate_30min i),
      j_active_cap_type = (case m of None \<Rightarrow> None | Some i \<Rightarrow> i_active_cap_type i),
      j_active_cap_amount = (case m of None \<Rightarrow> None | Some i \<Rightarrow> i_active_cap_amount i),
      j_ev_lot_location = None,
      j_has_info = (case m of None \<Rightarrow> 0 | Some i \<Rightarrow> 1)\<rparr>"

text \<open>
  The \<open>SELECT\<close> list of \<open>rebuild_join_table\<close>: neither the pricing columns nor
  \<open>ev_lot_location\<close> are in it.
\<close>

definition table_select :: "avail_row \<Rightarrow> info_row option \<Rightarrow> join_row" where
  "table_select a m =
     \<lparr>j_carpark_number = a_carpark_number a, j_lot_type = a_lot_type a,
      j_lots_available = a_lots_available a, j_total_lots = a_total_lots a,
      j_update_datetime = a_update_datetime a,
      j_static = (case m of None \<Rightarrow> null_static | Some i \<Rightarrow> i_static i),
      j_carpark_rate = None, j_current_rate_30min = None,
      j_active_cap_type = None, j_active_cap_amount = None,
      j_ev_lot_location = None,
      j_has_info = (case m of None \<Rightarrow> 0 | Some i \<Rightarrow> 1)\<rparr>"

definition left_join ::
  "(avail_row \<Rightarrow> info_row option \<Rightarrow> join_row) \<Rightarrow> avail_row list \<Rightarrow> info_row list
     \<Rightarrow> join_row list" where
  "left_join sel av tbl =
     concat (map (\<lambda>a. case join_matches a tbl of
                          [] \<Rightarrow> [sel a None]
                        | ms \<Rightarrow> map (\<lambda>i. sel a (Some i)) ms) av)"

text \<open>
  \<open>INSERT INTO carpark_availability_join ... SELECT\<close> into the emptied table, whose
  primary key is \<open>(carpark_number, lot_type)\<close>: two rows conflict when they have the
  same key and no column of it is NULL.
\<close>

definition insert_joined :: "join_row list \<Rightarrow> error + join_row list" where
  "insert_joined rows =
     (if distinct (filter (\<lambda>k. fst k \<noteq> None \<and> snd k \<noteq> None) (map j_key rows))
      then Inr rows else Inl IntegrityError)"

text \<open>SQL's aggregate \<open>MAX\<close>: the greatest non-NULL value, NULL when there is none.\<close>

fun sql_max :: "string option list \<Rightarrow> string option" where
  "sql_max [] = None"
| "sql_max (v # vs) =
     (case v of
        None \<Rightarrow> sql_max vs
      | Some x \<Rightarrow> (case sql_max vs of None \<Rightarrow> Some x | Some y \<Rightarrow> Some (max x y)))"

text \<open>
  \<open>CREATE TEMP TABLE _ev_cache AS SELECT carpark_number, MAX(ev_lot_location)
  FROM carpark_availability_join GROUP BY carpark_number\<close>; the rows whose number is
  NULL make one group.
\<close>

definition ev_cache :: "join_row list \<Rightarrow> (string option \<times> string option) list" where
  "ev_cache v =
     map (\<lambda>cp. (cp, sql_max (map j_ev_lot_location
                                (filter (\<lambda>r. j_carpark_number r = cp) v))))
       (remdups (map j_carpark_number v))"

text \<open>
  \<open>(SELECT c.ev_lot_location FROM _ev_cache c WHERE c.carpark_number = j.carpark_number)\<close>:
  NULL when the cache has no row whose number equals that of \<open>j\<close>, as when the
  number of \<open>j\<close> is NULL.
\<close>

definition cache_lookup ::
  "(string option \<times> string option) list \<Rightarrow> string option \<Rightarrow> string option" where
  "cache_lookup c cp =
     (case cp of
        None \<Rightarrow> None
      | Some x \<Rightarrow> (case map_of c (Some x) of None \<Rightarrow> None | Some v \<Rightarrow> v))"

definition restore_ev ::
  "(string option \<times> string option) list \<Rightarrow> join_row list \<Rightarrow> join_row list" where
  "restore_ev c v =
     map (\<lambda>j. j\<lparr>j_ev_lot_location :=
                   coalesce (cache_lookup c (j_carpark_number j)) (j_ev_lot_location j)\<rparr>) v"

text \<open>
  \<open>rebuild_join_snapshot\<close> (the availability and pricing drivers); an exception rolls
  the transaction back and the view is as before.
\<close>

definition rebuild_join_snapshot ::
  "avail_row list \<Rightarrow> info_row list \<Rightarrow> join_row list \<Rightarrow> join_row list \<times> error option" where
  "rebuild_join_snapshot av tbl v =
     (let c = ev_cache v
      in case insert_joined (left_join snapshot_select av tbl) of
           Inl e \<Rightarrow> (v, Some e)
         | Inr rows \<Rightarrow> (restore_ev c rows, None))"

text \<open>
  \<open>rebuild_join_table\<close> (the metadata driver), with its counts
  \<open>(matched, unmatched, total)\<close>.
\<close>

definition rebuild_join_table ::
  "avail_row list \<Rightarrow> info_row list \<Rightarrow> join_row list
     \<Rightarrow> join_row list \<times> (error + nat \<times> nat \<times> nat)" where
  "rebuild_join_table av tbl v =
     (case insert_joined (left_join table_select av tbl) of
        Inl e \<Rightarrow> (v, Inl e)
      | Inr rows \<Rightarrow>
          (let total = length rows;
               unmatched = length (filter (\<lambda>r. j_has_info r = 0) rows)
           in (rows, Inr (total - unmatched, unmatched, total))))"

section \<open>The annotation merge\<close>

text \<open>
  The loop of \<open>_load_ev_mapping_csv\<close> over the rows of the sheet, each given by its
  carpark cell and its location cell (\<open>None\<close> for a missing cell). The dictionary is
  the list of its items in insertion order.
\<close>

fun load_ev_rows ::
  "(string option \<times> string option) list \<Rightarrow> (string \<times> string) list \<Rightarrow> (string \<times> string) list"
  where
  "load_ev_rows [] mapping = mapping"
| "load_ev_rows ((cpf, evf) # rows) mapping =
     (let cp = py_upper (py_strip (case py_or cpf (Some []) of None \<Rightarrow> [] | Some x \<Rightarrow> x));
          ev = py_strip (case py_or evf (Some []) of None \<Rightarrow> [] | Some x \<Rightarrow> x)
      in if cp = [] then load_ev_rows rows mapping
         else if cp \<notin> set (map fst mapping) \<and> ev \<noteq> []
              then load_ev_rows rows (mapping @ [(cp, ev)])
              else load_ev_rows rows mapping)"

text \<open>
  \<open>UPDATE carpark_availability_join SET ev_lot_location = ?
  WHERE ev_lot_location IS NULL OR TRIM(ev_lot_location) = ''\<close>.
\<close>

definition apply_default :: "string \<Rightarrow> join_row list \<Rightarrow> join_row list" where
  "apply_default default_text v =
     map (\<lambda>r. if sql_blank (j_ev_lot_location r)
               then r\<lparr>j_ev_lot_location := Some default_text\<rparr> else r) v"

text \<open>
  \<open>UPDATE carpark_availability_join SET ev_lot_location = ?
  WHERE UPPER(TRIM(carpark_number)) = ?\<close> for one item of the mapping.
\<close>

definition apply_entry :: "string \<times> string \<Rightarrow> join_row list \<Rightarrow> join_row list" where
  "apply_entry e v =
     (case e of
        (cp_no, ev_loc) \<Rightarrow>
          map (\<lambda>r. if sql_eq (map_option norm_key (j_carpark_number r)) (Some cp_no)
                    then r\<lparr>j_ev_lot_location := Some ev_loc\<rparr> else r) v)"

text \<open>\<open>_apply_ev_mapping\<close>: the view after the transaction.\<close>

definition apply_ev_mapping :: "(string \<times> string) list \<Rightarrow> string \<Rightarrow> join_row list \<Rightarrow> join_row list"
  where
  "apply_ev_mapping mapping default_text v = fold apply_entry mapping (apply_default default_text v)"

text \<open>Its counters \<open>defaulted_set_this_run\<close> and \<open>sheet_matches_applied\<close>.\<close>

definition defaulted_count :: "join_row list \<Rightarrow> nat" where
  "defaulted_count v = length (filter (\<lambda>r. sql_blank (j_ev_lot_location r)) v)"

definition matches_applied :: "(string \<times> string) list \<Rightarrow> join_row list \<Rightarrow> nat" where
  "matches_applied mapping v =
     sum_list
       (map (\<lambda>e. length (filter (\<lambda>r. sql_eq (map_option norm_key (j_carpark_number r))
                                         (Some (fst e))) v)) mapping)"

section \<open>The drivers\<close>

text \<open>
  \<open>update_carpark_availability.lambda_handler\<close>: \<open>upsert\<close>, then
  \<open>rebuild_join_snapshot\<close>. An exception of \<open>upsert\<close> ends the handler.
\<close>

definition update_carpark_availability :: "bool \<Rightarrow> bool \<Rightarrow> string \<Rightarrow> payload \<Rightarrow> store \<Rightarrow> store"
  where
  "update_carpark_availability strict_mirror on_conflict_ok retrieved_at payload s =
     (case upsert strict_mirror on_conflict_ok retrieved_at payload s of
        (s', Inl e) \<Rightarrow> s'
      | (s', Inr st) \<Rightarrow>
          s'\<lparr>joined := fst (rebuild_join_snapshot (avail s') (info s') (joined s'))\<rparr>)"

text \<open>
  \<open>update_carpark_rates.lambda_handler\<close>: both pricing passes, then
  \<open>rebuild_join_snapshot\<close>.
\<close>

definition update_carpark_rates :: "nat \<Rightarrow> nat \<Rightarrow> nat \<Rightarrow> string \<Rightarrow> store \<Rightarrow> store" where
  "update_carpark_rates wk hh mm now s =
     (let tbl = refresh_time_dependent_rates wk hh mm now (mark_central_and_base_rates (info s))
      in s\<lparr>info := tbl, joined := fst (rebuild_join_snapshot (avail s) tbl (joined s))\<rparr>)"

text \<open>
  \<open>ingest_hdb_carpark_info.lambda_handler\<close>: \<open>load_info_into_sqlite\<close>, then
  \<open>rebuild_join_table\<close>.
\<close>

definition ingest_hdb_carpark_info :: "string \<Rightarrow> api_record list \<Rightarrow> store \<Rightarrow> store" where
  "ingest_hdb_carpark_info now records s =
     (case load_info_into_sqlite now records (info s) of
        (tbl, Inl e) \<Rightarrow> s
      | (tbl, Inr rows) \<Rightarrow>
          s\<lparr>info := tbl, joined := fst (rebuild_join_table (avail s) tbl (joined s))\<rparr>)"

text \<open>
  \<open>ingest_ev_locations.lambda_handler\<close> from the rows of the sheet on:
  \<open>default_text = (event or {}).get("default_text") or NO_EV_TEXT\<close>, the mapping is
  the one that \<open>_load_ev_mapping_csv\<close> builds, and \<open>_apply_ev_mapping\<close> gets both. It
  is the only caller of \<open>_apply_ev_mapping\<close>.
\<close>

definition NO_EV_TEXT :: string where
  "NO_EV_TEXT = ''No EV chargers''"

definition ingest_ev_locations ::
  "(string option \<times> string option) list \<Rightarrow> string option \<Rightarrow> store \<Rightarrow> store" where
  "ingest_ev_locations sheet event_default s =
     (let default_text =
            (case py_or event_default (Some NO_EV_TEXT) of None \<Rightarrow> NO_EV_TEXT | Some d \<Rightarrow> d);
          mapping = load_ev_rows sheet []
      in s\<lparr>joined := apply_ev_mapping mapping default_text (joined s)\<rparr>)"

text \<open>An invocation of one of the four jobs, with what it reads from its environment.\<close>

datatype job =
  Availability bool bool string payload
| Rates nat nat nat string
| Metadata string "api_record list"
| Annotation "(string option \<times> string option) list" "string option"

fun run_job :: "job \<Rightarrow> store \<Rightarrow> store" where
  "run_job (Availability strict_mirror on_conflict_ok retrieved_at payload) s =
     update_carpark_availability strict_mirror on_conflict_ok retrieved_at payload s"
| "run_job (Rates wk hh mm now) s = update_carpark_rates wk hh mm now s"
| "run_job (Metadata now records) s = ingest_hdb_carpark_info now records s"
| "run_job (Annotation sheet event_default) s = ingest_ev_locations sheet event_default s"

text \<open>The store after a sequence of invocations on the empty database.\<close>

definition run_jobs :: "job list \<Rightarrow> store" where
  "run_jobs js = fold run_job js empty_store"

text \<open>
  Consecutive calls of \<open>upsert_snapshot\<close> for one key, each observation given as
  \<open>(lots_avail, total_lots, upd, seen)\<close>.
\<close>

fun upsert_seq ::
  "bool \<Rightarrow> bool \<Rightarrow> avail_row list \<Rightarrow> string option \<Rightarrow> string option
     \<Rightarrow> (int \<times> int option \<times> string option \<times> string) list \<Rightarrow> avail_row list \<times> bool" where
  "upsert_seq ok legacy tbl cp lt [] = (tbl, legacy)"
| "upsert_seq ok legacy tbl cp lt ((lots, tot, upd, seen) # obs) =
     (case upsert_snapshot ok legacy tbl cp lt lots tot upd seen of
        (tbl', legacy') \<Rightarrow> upsert_seq ok legacy' tbl' cp lt obs)"

text \<open>The first value of a list that is not NULL.\<close>

fun first_some :: "'a option list \<Rightarrow> 'a option" where
  "first_some [] = None"
| "first_some (None # vs) = first_some vs"
| "first_some (Some v # vs) = Some v"

text \<open>The keys \<open>(carpark_number, lot_type)\<close> that the loops of \<open>upsert\<close> visit.\<close>

definition lot_keys ::
  "string option \<Rightarrow> lot_info list \<Rightarrow> (string option \<times> string option) list" where
  "lot_keys cp_no infos = map (\<lambda>i. (cp_no, li_lot_type i)) infos"

definition observed_keys :: "carpark list \<Rightarrow> (string option \<times> string option) list" where
  "observed_keys cps =
     concat (map (\<lambda>cp. lot_keys (cp_carpark_number cp) (cp_carpark_info cp)) cps)"

text \<open>
  What a batch of upserts stamped \<open>ts\<close> over the keys \<open>K\<close> does to the snapshot
  table: a row of the new table either has a key of \<open>K\<close> and the stamp \<open>ts\<close>, or is a
  row of the old table; the old rows with a key outside \<open>K\<close> are all kept; every key
  of \<open>K\<close> has a row with the stamp \<open>ts\<close>.
\<close>

definition batch_rel ::
  "string \<Rightarrow> (string option \<times> string option) set \<Rightarrow> avail_row list \<Rightarrow> avail_row list \<Rightarrow> bool"
  where
  "batch_rel ts K old new =
     ((\<forall>r\<in>set new. (a_key r \<in> K \<and> a_last_seen_at r = ts) \<or> r \<in> set old) \<and>
      (\<forall>r\<in>set old. a_key r \<notin> K \<longrightarrow> r \<in> set new) \<and>
      (\<forall>k\<in>K. \<exists>r\<in>set new. a_key r = k \<and> a_last_seen_at r = ts))"

text \<open>
  The keys \<open>(carpark_number, lot_type, update_datetime)\<close> of the history rows in
  which no column of the key is NULL.
\<close>

definition full_hkeys ::
  "hist_row list \<Rightarrow> (string option \<times> string option \<times> string option) list" where
  "full_hkeys h =
     filter (\<lambda>k. fst k \<noteq> None \<and> fst (snd k) \<noteq> None \<and> snd (snd k) \<noteq> None) (map h_key h)"

text \<open>The history only grows at its end, and keeps these keys distinct.\<close>

definition hist_ext :: "hist_row list \<Rightarrow> hist_row list \<Rightarrow> bool" where
  "hist_ext old new =
     ((\<exists>ys. new = old @ ys) \<and> (distinct (full_hkeys old) \<longrightarrow> distinct (full_hkeys new)))"

text \<open>Two transactions, or two outcomes of a loop, that differ in the global only.\<close>

definition same_tables :: "txn \<Rightarrow> txn \<Rightarrow> bool" where
  "same_tables t u = (t_avail t = t_avail u \<and> t_hist t = t_hist u \<and> t_inserts t = t_inserts u)"

definition same_outcome :: "(error \<times> bool) + txn \<Rightarrow> (error \<times> bool) + txn \<Rightarrow> bool" where
  "same_outcome a b =
     (case a of
        Inl x \<Rightarrow> (case b of Inl y \<Rightarrow> fst x = fst y | Inr u \<Rightarrow> False)
      | Inr t \<Rightarrow> (case b of Inl y \<Rightarrow> False | Inr u \<Rightarrow> same_tables t u))"

text \<open>
  The \<open>UPDATE\<close> of \<open>refresh_time_dependent_rates\<close> seen from one row of the table,
  and the tuple that the \<open>SELECT\<close> fetches for a row.
\<close>

definition price_step ::
  "nat \<Rightarrow> nat \<Rightarrow> nat \<Rightarrow> string \<Rightarrow> string \<times> int option \<times> string option \<Rightarrow> info_row \<Rightarrow> info_row" where
  "price_step wk hh mm now fetched r =
     (if i_carpark_number r = fst fetched
      then r\<lparr>i_current_rate_30min :=
               Some (current_rate_of (central_flag (fst (snd fetched))) wk hh),
             i_active_cap_type :=
               fst (cap_of (central_flag (fst (snd fetched))) (nps_of (snd (snd fetched))) hh mm),
             i_active_cap_amount :=
               snd (cap_of (central_flag (fst (snd fetched))) (nps_of (snd (snd fetched))) hh mm),
             i_rate_updated_at := Some now\<rparr>
      else r)"

definition fetch_row :: "info_row \<Rightarrow> string \<times> int option \<times> string option" where
  "fetch_row r = (i_carpark_number r, i_is_central r, s_night_parking (i_static r))"

text \<open>
  The two \<open>UPDATE\<close>s of \<open>_apply_ev_mapping\<close> seen from one row of the view, and the
  mappings whose texts SQL does not take for blank.
\<close>

definition default_step :: "string \<Rightarrow> join_row \<Rightarrow> join_row" where
  "default_step default_text r =
     (if sql_blank (j_ev_lot_location r) then r\<lparr>j_ev_lot_location := Some default_text\<rparr> else r)"

definition entry_step :: "string \<times> string \<Rightarrow> join_row \<Rightarrow> join_row" where
  "entry_step e r =
     (if sql_eq (map_option norm_key (j_carpark_number r)) (Some (fst e))
      then r\<lparr>j_ev_lot_location := Some (snd e)\<rparr> else r)"

definition nonblank_texts :: "(string \<times> string) list \<Rightarrow> bool" where
  "nonblank_texts mapping = list_all (\<lambda>e. \<not> sql_blank (Some (snd e))) mapping"

text \<open>
  The text that a mapping holds for a row of the view: that of the last item whose
  key is the normalized number of the row; none when the number is NULL.
\<close>

definition entry_for :: "(string \<times> string) list \<Rightarrow> join_row \<Rightarrow> string option" where
  "entry_for mapping r =
     (case map_option norm_key (j_carpark_number r) of
        None \<Rightarrow> None
      | Some k \<Rightarrow> map_of (rev mapping) k)"

section \<open>Example data\<close>

definition info_acb :: info_row where
  "info_acb =
     \<lparr>i_carpark_number = ''ACB'',
      i_static = null_static\<lparr>s_address := Some ''BLK 270/271 ALBERT CENTRE'',
                             s_night_parking := Some ''YES''\<rparr>,
      i_updated_at = Some ''2025-01-01T00:00:00Z'',
      i_is_central = Some 1, i_carpark_rate = Some 1.2, i_current_rate_30min = None,
      i_active_cap_type = None, i_active_cap_amount = None, i_rate_updated_at = None\<rparr>"

definition row_acb :: avail_row where
  "row_acb = \<lparr>a_carpark_number = Some ''ACB'', a_lot_type = Some ''C'', a_lots_available = 10,
              a_update_datetime = Some ''2025-01-01T09:59:00'',
              a_last_seen_at = ''2025-01-01T02:00:00Z'', a_total_lots = Some 100\<rparr>"

definition row_bbb :: avail_row where
  "row_bbb = \<lparr>a_carpark_number = Some ''BBB'', a_lot_type = Some ''C'', a_lots_available = 3,
              a_update_datetime = Some ''2025-01-01T09:58:00'',
              a_last_seen_at = ''2025-01-01T02:00:00Z'', a_total_lots = None\<rparr>"

definition store_two :: store where
  "store_two = \<lparr>avail = [row_acb, row_bbb], history = [], info = [], joined = [],
                use_legacy_upsert = False\<rparr>"

definition feed_acb :: payload where
  "feed_acb =
     Some [Some [\<lparr>cp_carpark_number = Some ''ACB'',
                  cp_update_datetime = Some ''2025-01-01T10:04:00'',
                  cp_carpark_info = [\<lparr>li_lot_type = Some ''C'', li_lots_available = Numeric 7,
                                      li_total_lots = Blank\<rparr>]\<rparr>]]"

text \<open>The same observation in a feed that leaves \<open>update_datetime\<close> out.\<close>

definition feed_undated :: payload where
  "feed_undated =
     Some [Some [\<lparr>cp_carpark_number = Some ''ACB'', cp_update_datetime = None,
                  cp_carpark_info = [\<lparr>li_lot_type = Some ''C'', li_lots_available = Numeric 7,
                                      li_total_lots = Blank\<rparr>]\<rparr>]]"

text \<open>
  A feed with a carpark that has no \<open>carpark_number\<close> and a carpark whose lot
  has no \<open>lot_type\<close>.
\<close>

definition feed_unkeyed :: payload where
  "feed_unkeyed =
     Some [Some [\<lparr>cp_carpark_number = None, cp_update_datetime = Some ''2025-01-01T10:04:00'',
                  cp_carpark_info = [\<lparr>li_lot_type = Some ''C'', li_lots_available = Numeric 7,
                                      li_total_lots = Blank\<rparr>]\<rparr>,
                 \<lparr>cp_carpark_number = Some ''ACB'',
                  cp_update_datetime = Some ''2025-01-01T10:04:00'',
                  cp_carpark_info = [\<lparr>li_lot_type = None, li_lots_available = Numeric 7,
                                      li_total_lots = Blank\<rparr>]\<rparr>]]"

definition record_acb :: api_record where
  "record_acb =
     (\<lambda>k. if k = ''car_park_no'' then Some (Some ''ACB'')
          else if k = ''address'' then Some (Some ''BLK 270/271 ALBERT CENTRE'')
          else if k = ''night_parking'' then Some (Some ''YES'')
          else None)"

definition info_acb_priced :: info_row where
  "info_acb_priced =
     info_acb\<lparr>i_current_rate_30min := Some 1.2, i_active_cap_type := Some ''DAY_CAP'',
              i_active_cap_amount := Some 20.0,
              i_rate_updated_at := Some ''2025-01-01T02:00:00Z''\<rparr>"

definition view_annotated :: "join_row list" where
  "view_annotated =
     [(snapshot_select row_acb (Some info_acb))\<lparr>j_ev_lot_location := Some ''Deck 2A''\<rparr>,
      snapshot_select row_bbb None]"

definition view_blank :: "join_row list" where
  "view_blank =
     [snapshot_select row_acb (Some info_acb),
      (snapshot_select row_bbb None)\<lparr>j_ev_lot_location := Some '' ''\<rparr>]"

section \<open>The fallback upsert agrees with the atomic one\<close>

lemma length_filter_0_iff: "(length (filter P xs) = 0) = (\<not> list_ex P xs)"
  by (induction xs) auto

lemma first_some_single [simp]: "first_some [x] = x"
  by (cases x) simp_all

lemma fallback_eq:
  "fallback_upsert tbl cp lt lots tot upd seen = on_conflict_upsert tbl cp lt lots tot upd seen"
proof -
  have c: "(if v = None then tot else v) = coalesce v tot" for v :: "int option"
    by (cases v) (simp_all add: coalesce_def)
  have k: "(sql_eq (a_carpark_number r) cp \<and> sql_eq (a_lot_type r) lt) = pk_conflict r cp lt"
    for r
    by (auto simp: a_key_def sql_eq_def pk_conflict_def)
  have m: "\<not> list_ex (\<lambda>r. pk_conflict r cp lt) tbl \<Longrightarrow>
           map (\<lambda>r. if pk_conflict r cp lt then f r else r) tbl = tbl" for f
    by (induction tbl) auto
  show ?thesis
    unfolding fallback_upsert_def fallback_update_def on_conflict_upsert_def
    by (simp add: length_filter_0_iff c k m del: length_0_conv)
qed

lemma upsert_snapshot_eq:
  "fst (upsert_snapshot ok legacy tbl cp lt lots tot upd seen) =
     on_conflict_upsert tbl cp lt lots tot upd seen"
  by (simp add: upsert_snapshot_def fallback_eq)

lemma upsert_snapshot_fstD:
  "upsert_snapshot ok legacy tbl cp lt lots tot upd seen = (a, b) \<Longrightarrow>
   a = on_conflict_upsert tbl cp lt lots tot upd seen"
  using upsert_snapshot_eq[of ok legacy tbl cp lt lots tot upd seen] by simp

lemma upsert_lot_same:
  "same_tables t u \<Longrightarrow> same_outcome (upsert_lot ok ts cp upd li t) (upsert_lot ok' ts cp upd li u)"
proof -
  assume st: "same_tables t u"
  show ?thesis
  proof (cases "parse_lots_available (li_lots_available li)")
    case (Inl e)
    then show ?thesis by (simp add: upsert_lot_def same_outcome_def)
  next
    case (Inr lots)
    obtain a b where 1: "upsert_snapshot ok (t_legacy t) (t_avail t) cp (li_lot_type li) lots
          (parse_total_lots (li_total_lots li)) upd ts = (a, b)" by (meson surj_pair)
    obtain a' b' where 2: "upsert_snapshot ok' (t_legacy u) (t_avail u) cp (li_lot_type li) lots
          (parse_total_lots (li_total_lots li)) upd ts = (a', b')" by (meson surj_pair)
    have "a = a'"
      using upsert_snapshot_fstD[OF 1] upsert_snapshot_fstD[OF 2] st
      by (simp add: same_tables_def)
    then show ?thesis
      using Inr 1 2 st
      by (simp add: upsert_lot_def same_outcome_def same_tables_def split: prod.splits)
  qed
qed

lemma same_outcome_bind:
  assumes h: "same_outcome a b"
    and k: "\<And>t u. same_tables t u \<Longrightarrow> same_outcome (f t) (g u)"
  shows "same_outcome (case a of Inl e \<Rightarrow> Inl e | Inr t \<Rightarrow> f t)
                      (case b of Inl e \<Rightarrow> Inl e | Inr u \<Rightarrow> g u)"
proof (cases a)
  case (Inl x)
  with h show ?thesis by (cases b) (simp_all add: same_outcome_def)
next
  case (Inr t)
  with h obtain u where u: "b = Inr u" "same_tables t u"
    by (cases b) (simp_all add: same_outcome_def)
  with Inr k[of t u] show ?thesis by simp
qed

lemma upsert_lots_same:
  "same_tables t u \<Longrightarrow>
   same_outcome (upsert_lots ok ts cp upd infos t) (upsert_lots ok' ts cp upd infos u)"
proof (induction infos arbitrary: t u)
  case Nil
  then show ?case by (simp add: same_outcome_def)
next
  case (Cons i infos)
  show ?case
    unfolding upsert_lots.simps
    by (rule same_outcome_bind[OF upsert_lot_same[OF Cons.prems]]) (rule Cons.IH)
qed

lemma upsert_carparks_same:
  "same_tables t u \<Longrightarrow>
   same_outcome (upsert_carparks ok ts cps t) (upsert_carparks ok' ts cps u)"
proof (induction cps arbitrary: t u)
  case Nil
  then show ?case by (simp add: same_outcome_def)
next
  case (Cons c cps)
  show ?case
    unfolding upsert_carparks.simps
    by (rule same_outcome_bind[OF upsert_lots_same[OF Cons.prems]]) (rule Cons.IH)
qed

lemma upsert_capability:
  "avail (fst (upsert strict ok ts p s)) = avail (fst (upsert strict ok' ts p s)) \<and>
   history (fst (upsert strict ok ts p s)) = history (fst (upsert strict ok' ts p s)) \<and>
   map_sum id (\<lambda>st. st\<lparr>legacy_upsert := False\<rparr>) (snd (upsert strict ok ts p s)) =
   map_sum id (\<lambda>st. st\<lparr>legacy_upsert := False\<rparr>) (snd (upsert strict ok' ts p s))"
proof -
  let ?t0 = "\<lparr>t_avail = avail s, t_hist = history s, t_legacy = use_legacy_upsert s, t_inserts = 0\<rparr>"
  have "same_outcome (upsert_carparks ok ts (payload_carparks p) ?t0)
          (upsert_carparks ok' ts (payload_carparks p) ?t0)"
    by (rule upsert_carparks_same) (simp add: same_tables_def)
  then show ?thesis
    by (auto simp: upsert_def Let_def same_outcome_def same_tables_def split: sum.splits prod.splits)
qed

text \<open>
  Claim C9. For every snapshot table and every single observation the fallback
  (the \<open>UPDATE\<close> that keeps a \<open>total_lots\<close> that is not NULL, then the \<open>INSERT\<close> when
  no row was updated) leaves exactly the table that the \<open>ON CONFLICT\<close> statement
  leaves, and so does \<open>upsert_snapshot\<close> whatever the runtime supports and whatever
  the global holds. A whole cycle on a runtime without \<open>ON CONFLICT\<close> ends as it
  does on a runtime with it: the same tables, and the same result up to the
  reported flag \<open>legacy_upsert\<close>; the fallback adds no failure.
\<close>

theorem fallback_upsert_equivalent:
  "fallback_upsert tbl cp lt lots tot upd seen = on_conflict_upsert tbl cp lt lots tot upd seen \<and>
   fst (upsert_snapshot ok legacy tbl cp lt lots tot upd seen) =
     on_conflict_upsert tbl cp lt lots tot upd seen \<and>
   avail (fst (upsert strict False ts p s)) = avail (fst (upsert strict True ts p s)) \<and>
   history (fst (upsert strict False ts p s)) = history (fst (upsert strict True ts p s)) \<and>
   map_sum id (\<lambda>st. st\<lparr>legacy_upsert := False\<rparr>) (snd (upsert strict False ts p s)) =
   map_sum id (\<lambda>st. st\<lparr>legacy_upsert := False\<rparr>) (snd (upsert strict True ts p s))"
  using fallback_eq[of tbl cp lt lots tot upd seen]
    upsert_snapshot_eq[of ok legacy tbl cp lt lots tot upd seen]
    upsert_capability[of strict False ts p s True]
  by simp

theorem fallback_upsert_equivalent_witness:
  "fallback_upsert
     [\<lparr>a_carpark_number = Some ''ACB'', a_lot_type = Some ''C'', a_lots_available = 10,
       a_update_datetime = Some ''2025-01-01T09:59:00'',
       a_last_seen_at = ''2025-01-01T02:00:00Z'', a_total_lots = Some 100\<rparr>]
     (Some ''ACB'') (Some ''C'') 7 None (Some ''2025-01-01T10:04:00'') ''2025-01-01T02:05:00Z'' =
   [\<lparr>a_carpark_number = Some ''ACB'', a_lot_type = Some ''C'', a_lots_available = 7,
     a_update_datetime = Some ''2025-01-01T10:04:00'',
     a_last_seen_at = ''2025-01-01T02:05:00Z'', a_total_lots = Some 100\<rparr>]"
  using fallback_upsert_equivalent
    [of "[\<lparr>a_carpark_number = Some ''ACB'', a_lot_type = Some ''C'', a_lots_available = 10,
           a_update_datetime = Some ''2025-01-01T09:59:00'',
           a_last_seen_at = ''2025-01-01T02:00:00Z'', a_total_lots = Some 100\<rparr>]"
        "Some ''ACB''" "Some ''C''" 7 None "Some ''2025-01-01T10:04:00''"
        "''2025-01-01T02:05:00Z''"]
  by (simp add: on_conflict_upsert_def pk_conflict_def a_key_def coalesce_def)

section \<open>Fill-once \<open>total_lots\<close>\<close>

lemma on_conflict_absent:
  "\<not> list_ex (\<lambda>r. a_key r = (Some cp, Some lt)) tbl \<Longrightarrow>
   filter (\<lambda>r. a_key r = (Some cp, Some lt)) (on_conflict_upsert tbl (Some cp) (Some lt) lots tot upd seen)
     = [new_avail_row (Some cp) (Some lt) lots tot upd seen]"
  by (auto simp: on_conflict_upsert_def pk_conflict_def list_ex_iff new_avail_row_def a_key_def
      filter_empty_conv)

lemma filter_map_upd:
  "(\<And>r. P (f r) = P r) \<Longrightarrow> filter P (map (\<lambda>r. if P r then f r else r) xs) = map f (filter P xs)"
  by (induction xs) auto

lemma on_conflict_present:
  "filter (\<lambda>r. a_key r = (Some cp, Some lt)) tbl = [r] \<Longrightarrow>
   filter (\<lambda>r. a_key r = (Some cp, Some lt)) (on_conflict_upsert tbl (Some cp) (Some lt) lots tot upd seen)
     = [r\<lparr>a_lots_available := lots, a_total_lots := coalesce (a_total_lots r) tot,
          a_update_datetime := upd, a_last_seen_at := seen\<rparr>]"
proof -
  assume a: "filter (\<lambda>r. a_key r = (Some cp, Some lt)) tbl = [r]"
  then have "r \<in> set (filter (\<lambda>r. a_key r = (Some cp, Some lt)) tbl)" by simp
  then have ex: "list_ex (\<lambda>r. a_key r = (Some cp, Some lt)) tbl" by (auto simp: list_ex_iff)
  show ?thesis
    unfolding on_conflict_upsert_def pk_conflict_def using ex a
    by (simp add: filter_map_upd a_key_def)
qed

lemma upsert_seq_present:
  "filter (\<lambda>r. a_key r = (Some cp, Some lt)) tbl = [r] \<Longrightarrow>
   filter (\<lambda>r. a_key r = (Some cp, Some lt)) (fst (upsert_seq ok legacy tbl (Some cp) (Some lt) obs))
     = [if obs = [] then r
        else r\<lparr>a_lots_available := fst (last obs),
               a_total_lots := coalesce (a_total_lots r) (first_some (map (\<lambda>ob. fst (snd ob)) obs)),
               a_update_datetime := fst (snd (snd (last obs))),
               a_last_seen_at := snd (snd (snd (last obs)))\<rparr>]"
proof (induction obs arbitrary: tbl r legacy)
  case Nil
  then show ?case by simp
next
  case (Cons ob obs)
  obtain lots tot upd seen where ob: "ob = (lots, tot, upd, seen)" by (cases ob) auto
  obtain tbl' legacy' where u: "upsert_snapshot ok legacy tbl (Some cp) (Some lt) lots tot upd seen = (tbl', legacy')"
    by (cases "upsert_snapshot ok legacy tbl (Some cp) (Some lt) lots tot upd seen") auto
  have tbl': "tbl' = on_conflict_upsert tbl (Some cp) (Some lt) lots tot upd seen"
    using upsert_snapshot_eq[of ok legacy tbl "Some cp" "Some lt" lots tot upd seen] u by simp
  let ?r' = "r\<lparr>a_lots_available := lots, a_total_lots := coalesce (a_total_lots r) tot,
          a_update_datetime := upd, a_last_seen_at := seen\<rparr>"
  have f: "filter (\<lambda>r. a_key r = (Some cp, Some lt)) tbl' = [?r']"
    unfolding tbl' by (rule on_conflict_present[OF Cons.prems])
  have co: "coalesce (coalesce (a_total_lots r) tot) x = coalesce (a_total_lots r) (first_some (tot # map (\<lambda>ob. fst (snd ob)) obs))"
    if "x = first_some (map (\<lambda>ob. fst (snd ob)) obs)" for x
    using that by (cases "a_total_lots r"; cases tot) (simp_all add: coalesce_def)
  show ?case
    using Cons.IH[OF f, of legacy'] co
    by (simp add: ob u)
qed

text \<open>
  Claim C3. For every sequence of upserts to one key \<open>(cp, lt)\<close> that starts on a
  table with no row for the key, the table then holds exactly one row for the key;
  its \<open>total_lots\<close> is the first value of the sequence that is not NULL (NULL when
  there is none), whatever came later, and its \<open>lots_available\<close>,
  \<open>update_datetime\<close> and \<open>last_seen_at\<close> are those of the last upsert.
\<close>

theorem total_lots_fill_once:
  "\<not> list_ex (\<lambda>r. a_key r = (Some cp, Some lt)) tbl \<Longrightarrow> obs \<noteq> [] \<Longrightarrow>
   filter (\<lambda>r. a_key r = (Some cp, Some lt)) (fst (upsert_seq ok legacy tbl (Some cp) (Some lt) obs))
     = [\<lparr>a_carpark_number = Some cp, a_lot_type = Some lt, a_lots_available = fst (last obs),
         a_update_datetime = fst (snd (snd (last obs))),
         a_last_seen_at = snd (snd (snd (last obs))),
         a_total_lots = first_some (map (\<lambda>ob. fst (snd ob)) obs)\<rparr>]"
proof -
  assume abs: "\<not> list_ex (\<lambda>r. a_key r = (Some cp, Some lt)) tbl" and ne: "obs \<noteq> []"
  obtain ob rest where obs: "obs = ob # rest" using ne by (cases obs) auto
  obtain lots tot upd seen where ob: "ob = (lots, tot, upd, seen)" by (cases ob) auto
  obtain tbl' legacy' where u: "upsert_snapshot ok legacy tbl (Some cp) (Some lt) lots tot upd seen = (tbl', legacy')"
    by (cases "upsert_snapshot ok legacy tbl (Some cp) (Some lt) lots tot upd seen") auto
  have tbl': "tbl' = on_conflict_upsert tbl (Some cp) (Some lt) lots tot upd seen"
    using upsert_snapshot_eq[of ok legacy tbl "Some cp" "Some lt" lots tot upd seen] u by simp
  have f: "filter (\<lambda>r. a_key r = (Some cp, Some lt)) tbl' = [new_avail_row (Some cp) (Some lt) lots tot upd seen]"
    unfolding tbl' by (rule on_conflict_absent[OF abs])
  have co: "coalesce tot x = first_some (tot # map (\<lambda>ob. fst (snd ob)) rest)"
    if "x = first_some (map (\<lambda>ob. fst (snd ob)) rest)" for x
    using that by (cases tot) (simp_all add: coalesce_def)
  show ?thesis
    using upsert_seq_present[OF f, of ok legacy' rest] co
    by (simp add: obs ob u new_avail_row_def)
qed


theorem total_lots_fill_once_witness:
  "filter (\<lambda>r. a_key r = (Some ''ACB'', Some ''C''))
     (fst (upsert_seq False False [] (Some ''ACB'') (Some ''C'')
        [(10, None, Some ''u1'', ''t1''), (7, Some 100, Some ''u2'', ''t2''),
         (3, None, Some ''u3'', ''t3''), (4, Some 250, Some ''u4'', ''t4'')])) =
   [\<lparr>a_carpark_number = Some ''ACB'', a_lot_type = Some ''C'', a_lots_available = 4,
     a_update_datetime = Some ''u4'', a_last_seen_at = ''t4'', a_total_lots = Some 100\<rparr>]"
  using total_lots_fill_once
    [of "''ACB''" "''C''" "[]"
        "[(10, None, Some ''u1'', ''t1''), (7, Some 100, Some ''u2'', ''t2''),
          (3, None, Some ''u3'', ''t3''), (4, Some 250, Some ''u4'', ''t4'')]" False False]
  by simp

section \<open>The strict mirror\<close>

lemma batch_rel_refl: "batch_rel ts {} tbl tbl"
  by (simp add: batch_rel_def)

lemma batch_rel_trans:
  assumes ab: "batch_rel ts K a b" and bc: "batch_rel ts L b c"
  shows "batch_rel ts (K \<union> L) a c"
  unfolding batch_rel_def
proof (intro conjI ballI impI)
  fix r assume "r \<in> set c"
  with bc have "(a_key r \<in> L \<and> a_last_seen_at r = ts) \<or> r \<in> set b"
    unfolding batch_rel_def by blast
  with ab show "(a_key r \<in> K \<union> L \<and> a_last_seen_at r = ts) \<or> r \<in> set a"
    unfolding batch_rel_def by blast
next
  fix r assume "r \<in> set a" "a_key r \<notin> K \<union> L"
  with ab have "r \<in> set b" "a_key r \<notin> L" unfolding batch_rel_def by blast+
  with bc show "r \<in> set c" unfolding batch_rel_def by blast
next
  fix k assume k: "k \<in> K \<union> L"
  show "\<exists>r\<in>set c. a_key r = k \<and> a_last_seen_at r = ts"
  proof (cases "k \<in> L")
    case True
    with bc show ?thesis unfolding batch_rel_def by blast
  next
    case False
    with k have "k \<in> K" by simp
    with ab obtain r where r: "r \<in> set b" "a_key r = k" "a_last_seen_at r = ts"
      unfolding batch_rel_def by blast
    with False bc have "r \<in> set c" unfolding batch_rel_def by blast
    with r show ?thesis by blast
  qed
qed

lemma on_conflict_rel:
  "batch_rel seen {(cp, lt)} tbl (on_conflict_upsert tbl cp lt lots tot upd seen)"
proof (cases "list_ex (\<lambda>r. pk_conflict r cp lt) tbl")
  case True
  then obtain r0 where r0: "r0 \<in> set tbl" "pk_conflict r0 cp lt"
    by (auto simp: list_ex_iff)
  let ?f = "\<lambda>r. r\<lparr>a_lots_available := lots, a_total_lots := coalesce (a_total_lots r) tot,
                     a_update_datetime := upd, a_last_seen_at := seen\<rparr>"
  have new: "on_conflict_upsert tbl cp lt lots tot upd seen =
               map (\<lambda>r. if pk_conflict r cp lt then ?f r else r) tbl"
    using True by (simp add: on_conflict_upsert_def)
  have k: "a_key (?f r) = a_key r" for r by (simp add: a_key_def)
  have c: "pk_conflict r cp lt \<Longrightarrow> a_key r = (cp, lt)" for r
    by (simp add: pk_conflict_def)
  have n: "a_key r \<noteq> (cp, lt) \<Longrightarrow> \<not> pk_conflict r cp lt" for r
    by (simp add: pk_conflict_def)
  have "?f r0 \<in> set (on_conflict_upsert tbl cp lt lots tot upd seen)"
    unfolding new using r0 by force
  moreover have "a_key (?f r0) = (cp, lt)" using k c r0 by metis
  moreover have "a_last_seen_at (?f r0) = seen" by simp
  ultimately have 3: "\<exists>r\<in>set (on_conflict_upsert tbl cp lt lots tot upd seen).
                        a_key r = (cp, lt) \<and> a_last_seen_at r = seen"
    by blast
  show ?thesis
    unfolding batch_rel_def
  proof (intro conjI ballI impI)
    fix r assume "r \<in> set (on_conflict_upsert tbl cp lt lots tot upd seen)"
    then obtain r1 where r1: "r1 \<in> set tbl" "r = (if pk_conflict r1 cp lt then ?f r1 else r1)"
      unfolding new by auto
    show "(a_key r \<in> {(cp, lt)} \<and> a_last_seen_at r = seen) \<or> r \<in> set tbl"
    proof (cases "pk_conflict r1 cp lt")
      case True
      with r1 k[of r1] c[of r1] show ?thesis by simp
    next
      case False
      with r1 show ?thesis by simp
    qed
  next
    fix r assume "r \<in> set tbl" "a_key r \<notin> {(cp, lt)}"
    then show "r \<in> set (on_conflict_upsert tbl cp lt lots tot upd seen)"
      unfolding new using n[of r] by force
  next
    fix k assume "k \<in> {(cp, lt)}"
    then show "\<exists>r\<in>set (on_conflict_upsert tbl cp lt lots tot upd seen).
                 a_key r = k \<and> a_last_seen_at r = seen"
      using 3 by simp
  qed
next
  case False
  then show ?thesis
    unfolding batch_rel_def on_conflict_upsert_def
    by (auto simp: a_key_def new_avail_row_def)
qed

lemma upsert_lot_avail:
  assumes "upsert_lot ok ts cp upd li t = Inr t'"
  shows "\<exists>lots. t_avail t' = on_conflict_upsert (t_avail t) cp (li_lot_type li) lots
              (parse_total_lots (li_total_lots li)) upd ts"
proof -
  from assms obtain lots where p: "parse_lots_available (li_lots_available li) = Inr lots"
    unfolding upsert_lot_def by (auto split: sum.splits)
  obtain a b where u: "upsert_snapshot ok (t_legacy t) (t_avail t) cp (li_lot_type li) lots
          (parse_total_lots (li_total_lots li)) upd ts = (a, b)"
    by (meson surj_pair)
  from assms p u have "t_avail t' = a"
    unfolding upsert_lot_def by (auto split: prod.splits)
  with upsert_snapshot_fstD[OF u] show ?thesis by blast
qed

lemma upsert_lot_rel:
  "upsert_lot ok ts cp upd li t = Inr t' \<Longrightarrow>
   batch_rel ts {(cp, li_lot_type li)} (t_avail t) (t_avail t')"
  using upsert_lot_avail[of ok ts cp upd li t t'] on_conflict_rel by auto

lemma upsert_lots_rel:
  "upsert_lots ok ts cp upd infos t = Inr t' \<Longrightarrow>
   batch_rel ts (set (lot_keys cp infos)) (t_avail t) (t_avail t')"
proof (induction infos arbitrary: t)
  case Nil
  then show ?case by (simp add: lot_keys_def batch_rel_refl)
next
  case (Cons i infos)
  then obtain t1 where 1: "upsert_lot ok ts cp upd i t = Inr t1"
    and 2: "upsert_lots ok ts cp upd infos t1 = Inr t'"
    by (auto split: sum.splits)
  show ?case
    using batch_rel_trans[OF upsert_lot_rel[OF 1] Cons.IH[OF 2]]
    by (simp add: lot_keys_def)
qed

lemma upsert_carparks_rel:
  "upsert_carparks ok ts cps t = Inr t' \<Longrightarrow>
   batch_rel ts (set (observed_keys cps)) (t_avail t) (t_avail t')"
proof (induction cps arbitrary: t)
  case Nil
  then show ?case by (simp add: observed_keys_def batch_rel_refl)
next
  case (Cons c cps)
  then obtain t1 where 1: "upsert_lots ok ts (cp_carpark_number c) (cp_update_datetime c) (cp_carpark_info c) t = Inr t1"
    and 2: "upsert_carparks ok ts cps t1 = Inr t'"
    by (auto split: sum.splits)
  show ?case
    using batch_rel_trans[OF upsert_lots_rel[OF 1] Cons.IH[OF 2]]
    by (simp add: observed_keys_def)
qed

text \<open>
  Claim C5, amended. After an ingestion cycle with the strict mirror that commits,
  on a store in which no row of the snapshot table is stamped later than the
  cycle's timestamp \<open>ts\<close>: every row that remains has \<open>last_seen_at = ts\<close>; a row
  stored before the cycle whose key the batch did not observe remains exactly when
  its \<open>last_seen_at\<close> does not precede \<open>ts\<close>; and every key that the batch observed
  has a row.
\<close>

theorem strict_mirror_cycle:
  assumes ord: "\<forall>r\<in>set (avail s). a_last_seen_at r \<le> ts"
    and run: "upsert True ok ts p s = (s', Inr st)"
  shows "(\<forall>r\<in>set (avail s'). a_last_seen_at r = ts) \<and>
         (\<forall>r\<in>set (avail s). a_key r \<notin> set (observed_keys (payload_carparks p)) \<longrightarrow>
              (r \<in> set (avail s') \<longleftrightarrow> \<not> a_last_seen_at r < ts)) \<and>
         (\<forall>k\<in>set (observed_keys (payload_carparks p)). \<exists>r\<in>set (avail s'). a_key r = k)"
proof -
  let ?t0 = "\<lparr>t_avail = avail s, t_hist = history s, t_legacy = use_legacy_upsert s, t_inserts = 0\<rparr>"
  from run obtain t where t: "upsert_carparks ok ts (payload_carparks p) ?t0 = Inr t"
    and s': "avail s' = filter (\<lambda>r. \<not> a_last_seen_at r < ts) (t_avail t)"
    by (auto simp: upsert_def Let_def split: sum.splits prod.splits)
  have rel: "batch_rel ts (set (observed_keys (payload_carparks p))) (avail s) (t_avail t)"
    using upsert_carparks_rel[OF t] by simp
  have a: "a_last_seen_at r = ts" if "r \<in> set (avail s')" for r
  proof -
    from that have m: "r \<in> set (t_avail t)" and n: "ts \<le> a_last_seen_at r"
      unfolding s' by (auto simp: not_less)
    from rel m have "a_last_seen_at r = ts \<or> r \<in> set (avail s)"
      unfolding batch_rel_def by blast
    with ord n show ?thesis by (auto intro: order.antisym)
  qed
  have b: "r \<in> set (avail s') \<longleftrightarrow> \<not> a_last_seen_at r < ts"
    if "r \<in> set (avail s)" "a_key r \<notin> set (observed_keys (payload_carparks p))" for r
  proof -
    from rel that have "r \<in> set (t_avail t)" unfolding batch_rel_def by blast
    then show ?thesis unfolding s' by simp
  qed
  have c: "\<exists>r\<in>set (avail s'). a_key r = k"
    if "k \<in> set (observed_keys (payload_carparks p))" for k
  proof -
    from rel that obtain r where r: "r \<in> set (t_avail t)" "a_key r = k"
      "a_last_seen_at r = ts"
      unfolding batch_rel_def by blast
    then show ?thesis unfolding s' by auto
  qed
  from a b c show ?thesis by blast
qed


lemmas cycle_eval = upsert_def payload_carparks_def upsert_lot_def upsert_snapshot_def
  on_conflict_upsert_def fallback_upsert_def fallback_update_def insert_or_ignore_history_def
  pk_conflict_def sql_eq_def a_key_def h_key_def new_avail_row_def coalesce_def Let_def

theorem strict_mirror_cycle_witness:
  "map a_last_seen_at (avail (fst (upsert True True ''2025-01-01T02:05:00Z'' feed_acb store_two)))
     = [''2025-01-01T02:05:00Z''] \<and>
   map a_key (avail (fst (upsert True True ''2025-01-01T02:05:00Z'' feed_acb store_two)))
     = [(Some ''ACB'', Some ''C'')]"
  using strict_mirror_cycle[of store_two "''2025-01-01T02:05:00Z''" True feed_acb
      "fst (upsert True True ''2025-01-01T02:05:00Z'' feed_acb store_two)"
      "\<lparr>seen_carparks = 1, snapshot_rows = 1, history_inserts = 1, mirror_deleted = 1, legacy_upsert = False\<rparr>"]
  by (simp add: cycle_eval feed_acb_def store_two_def row_acb_def row_bbb_def)

text \<open>
  The claim without the condition on the stored stamps fails: a cycle whose clock
  reading is earlier than the stamp of a stored row that the batch does not observe
  commits, and leaves that row with its own stamp.
\<close>

theorem strict_mirror_cycle_counterexample:
  "snd (upsert True True ''2024-12-31T23:00:00Z'' feed_acb store_two) =
     Inr \<lparr>seen_carparks = 1, snapshot_rows = 2, history_inserts = 1, mirror_deleted = 0,
          legacy_upsert = False\<rparr> \<and>
   map a_last_seen_at (avail (fst (upsert True True ''2024-12-31T23:00:00Z'' feed_acb store_two)))
     = [''2024-12-31T23:00:00Z'', ''2025-01-01T02:00:00Z'']"
  by (simp add: cycle_eval feed_acb_def store_two_def row_acb_def row_bbb_def)

section \<open>A cycle with an empty payload\<close>

text \<open>
  Claim C10, amended. A cycle with the strict mirror whose payload has no carparks
  (no \<open>items\<close>, an empty \<open>items\<close>, no \<open>carpark_data\<close> or an empty one) commits; it
  deletes exactly the rows of the snapshot table whose \<open>last_seen_at\<close> precedes the
  cycle's timestamp, which is every row when every stored stamp precedes it; the
  history is unchanged.
\<close>

theorem empty_payload_cycle:
  "payload_carparks p = [] \<Longrightarrow>
   upsert True ok ts p s =
     (s\<lparr>avail := filter (\<lambda>r. \<not> a_last_seen_at r < ts) (avail s)\<rparr>,
      Inr \<lparr>seen_carparks = 0,
           snapshot_rows = length (filter (\<lambda>r. \<not> a_last_seen_at r < ts) (avail s)),
           history_inserts = 0,
           mirror_deleted = length (filter (\<lambda>r. a_last_seen_at r < ts) (avail s)),
           legacy_upsert = use_legacy_upsert s\<rparr>) \<and>
   history (fst (upsert True ok ts p s)) = history s \<and>
   ((\<forall>r\<in>set (avail s). a_last_seen_at r < ts) \<longrightarrow> avail (fst (upsert True ok ts p s)) = [])"
  by (simp add: upsert_def Let_def filter_empty_conv)

theorem empty_payload_cycle_witness:
  "payload_carparks (Some [Some []]) = [] \<and>
   avail (fst (upsert True True ''2025-01-01T02:05:00Z'' (Some [Some []]) store_two)) = [] \<and>
   history (fst (upsert True True ''2025-01-01T02:05:00Z'' (Some [Some []]) store_two)) = []"
  using empty_payload_cycle[of "Some [Some []]" True "''2025-01-01T02:05:00Z''" store_two]
  by (simp add: payload_carparks_def store_two_def row_acb_def row_bbb_def)

text \<open>
  The rows are not all deleted when a stored stamp does not precede the timestamp:
  here the cycle runs in the clock second that stamped the stored rows.
\<close>

theorem empty_payload_cycle_counterexample:
  "payload_carparks None = [] \<and>
   snd (upsert True True ''2025-01-01T02:00:00Z'' None store_two) =
     Inr \<lparr>seen_carparks = 0, snapshot_rows = 2, history_inserts = 0, mirror_deleted = 0,
          legacy_upsert = False\<rparr> \<and>
   avail (fst (upsert True True ''2025-01-01T02:00:00Z'' None store_two)) = [row_acb, row_bbb]"
  by (simp add: cycle_eval store_two_def row_acb_def row_bbb_def)


section \<open>The history\<close>

lemma ioi_dup:
  "list_ex (\<lambda>r. h_key r = (Some cp, Some lt, Some upd)) hist \<Longrightarrow>
   insert_or_ignore_history hist (Some cp) (Some lt) lots (Some upd) ts = (hist, 0)"
  by (simp add: insert_or_ignore_history_def)

lemma ioi_distinct:
  "distinct (full_hkeys hist) \<Longrightarrow>
   distinct (full_hkeys (fst (insert_or_ignore_history hist cp lt lots upd ts)))"
  by (auto simp: insert_or_ignore_history_def full_hkeys_def list_ex_iff h_key_def)

lemma ioi_append:
  "\<exists>ys. fst (insert_or_ignore_history hist cp lt lots upd ts) = hist @ ys"
  by (simp add: insert_or_ignore_history_def)

lemma hist_ext_refl: "hist_ext h h"
  by (simp add: hist_ext_def)

lemma hist_ext_trans: "hist_ext a b \<Longrightarrow> hist_ext b c \<Longrightarrow> hist_ext a c"
  by (auto simp: hist_ext_def)

lemma upsert_lot_hist:
  assumes "upsert_lot ok ts cp upd li t = Inr t'"
  shows "hist_ext (t_hist t) (t_hist t')"
proof -
  from assms obtain lots where p: "parse_lots_available (li_lots_available li) = Inr lots"
    unfolding upsert_lot_def by (auto split: sum.splits)
  from assms p have "t_hist t' = fst (insert_or_ignore_history (t_hist t) cp (li_lot_type li) lots upd ts)"
    unfolding upsert_lot_def by (auto split: prod.splits)
  then show ?thesis
    using ioi_distinct[of "t_hist t" cp "li_lot_type li" lots upd ts]
      ioi_append[of "t_hist t" cp "li_lot_type li" lots upd ts]
    by (simp add: hist_ext_def)
qed

lemma upsert_lots_hist:
  "upsert_lots ok ts cp upd infos t = Inr t' \<Longrightarrow> hist_ext (t_hist t) (t_hist t')"
proof (induction infos arbitrary: t)
  case Nil
  then show ?case by (simp add: hist_ext_refl)
next
  case (Cons i infos)
  then obtain t1 where 1: "upsert_lot ok ts cp upd i t = Inr t1"
    and 2: "upsert_lots ok ts cp upd infos t1 = Inr t'"
    by (auto split: sum.splits)
  show ?case
    by (rule hist_ext_trans[OF upsert_lot_hist[OF 1] Cons.IH[OF 2]])
qed

lemma upsert_carparks_hist:
  "upsert_carparks ok ts cps t = Inr t' \<Longrightarrow> hist_ext (t_hist t) (t_hist t')"
proof (induction cps arbitrary: t)
  case Nil
  then show ?case by (simp add: hist_ext_refl)
next
  case (Cons c cps)
  then obtain t1 where 1: "upsert_lots ok ts (cp_carpark_number c) (cp_update_datetime c) (cp_carpark_info c) t = Inr t1"
    and 2: "upsert_carparks ok ts cps t1 = Inr t'"
    by (auto split: sum.splits)
  show ?case
    by (rule hist_ext_trans[OF upsert_lots_hist[OF 1] Cons.IH[OF 2]])
qed

lemma upsert_hist: "hist_ext (history s) (history (fst (upsert strict ok ts p s)))"
proof (cases "upsert_carparks ok ts (payload_carparks p)
                \<lparr>t_avail = avail s, t_hist = history s, t_legacy = use_legacy_upsert s, t_inserts = 0\<rparr>")
  case (Inl a)
  then show ?thesis by (cases a) (simp add: upsert_def hist_ext_refl)
next
  case (Inr t)
  from upsert_carparks_hist[OF Inr] show ?thesis
    using Inr by (simp add: upsert_def Let_def)
qed

lemma availability_hist:
  "hist_ext (history s) (history (update_carpark_availability strict ok ts p s))"
proof -
  obtain s' res where u: "upsert strict ok ts p s = (s', res)" by (meson surj_pair)
  have "history (update_carpark_availability strict ok ts p s) = history s'"
    unfolding update_carpark_availability_def u by (cases res) simp_all
  with upsert_hist[of s strict ok ts p] u show ?thesis by simp
qed

lemma rates_hist: "history (update_carpark_rates wk hh mm now s) = history s"
  by (simp add: update_carpark_rates_def Let_def)

lemma metadata_hist: "history (ingest_hdb_carpark_info now recs s) = history s"
  by (simp add: ingest_hdb_carpark_info_def split: prod.splits sum.splits)

lemma annotation_hist: "history (ingest_ev_locations sheet d s) = history s"
  by (simp add: ingest_ev_locations_def Let_def)

lemma run_job_hist: "hist_ext (history s) (history (run_job j s))"
  by (cases j) (simp_all add: availability_hist rates_hist metadata_hist annotation_hist hist_ext_refl)

lemma fold_run_job_distinct:
  "distinct (full_hkeys (history s)) \<Longrightarrow> distinct (full_hkeys (history (fold run_job js s)))"
proof (induction js arbitrary: s)
  case Nil
  then show ?case by simp
next
  case (Cons j js)
  have "distinct (full_hkeys (history (run_job j s)))"
    using run_job_hist[of s j] Cons.prems by (simp add: hist_ext_def)
  from Cons.IH[OF this] show ?case by simp
qed

text \<open>
  Claim C6, amended. In every store reached from the empty database by invocations
  of the four jobs, no two rows of the history in which \<open>carpark_number\<close>,
  \<open>lot_type\<close> and \<open>update_datetime\<close> are all present (not NULL) have the same
  \<open>(carpark_number, lot_type, update_datetime)\<close>. Appending an observation with the
  three values present whose key is there inserts nothing and reports the row
  count 0. Every job leaves the rows of the history in place (the new history is
  the old one with rows added at its end), and the pricing, metadata and
  annotation jobs leave it as it is.
\<close>

theorem history_unique:
  "distinct (full_hkeys (history (run_jobs js))) \<and>
   (list_ex (\<lambda>r. h_key r = (Some cp, Some lt, Some upd)) hist \<longrightarrow>
      insert_or_ignore_history hist (Some cp) (Some lt) lots (Some upd) ts = (hist, 0)) \<and>
   (\<exists>ys. history (run_job j s) = history s @ ys) \<and>
   history (update_carpark_rates wk hh mm now s) = history s \<and>
   history (ingest_hdb_carpark_info now' recs s) = history s \<and>
   history (ingest_ev_locations sheet d s) = history s"
proof -
  have 1: "distinct (full_hkeys (history (run_jobs js)))"
    unfolding run_jobs_def
    by (rule fold_run_job_distinct) (simp add: empty_store_def full_hkeys_def)
  have 3: "\<exists>ys. history (run_job j s) = history s @ ys"
    using run_job_hist[of s j] by (simp add: hist_ext_def)
  show ?thesis
    using 1 3 by (simp add: ioi_dup rates_hist metadata_hist annotation_hist)
qed

theorem history_unique_witness:
  "distinct (full_hkeys (history (run_jobs
      [Availability True True ''2025-01-01T02:05:00Z'' feed_acb,
       Rates 2 10 5 ''2025-01-01T02:06:00Z'',
       Availability True False ''2025-01-01T02:10:00Z'' feed_acb]))) \<and>
   insert_or_ignore_history
     [\<lparr>h_carpark_number = Some ''ACB'', h_lot_type = Some ''C'', h_lots_available = 7,
       h_update_datetime = Some ''2025-01-01T10:04:00'',
       h_retrieved_at = ''2025-01-01T02:05:00Z''\<rparr>]
     (Some ''ACB'') (Some ''C'') 7 (Some ''2025-01-01T10:04:00'') ''2025-01-01T02:10:00Z'' =
   ([\<lparr>h_carpark_number = Some ''ACB'', h_lot_type = Some ''C'', h_lots_available = 7,
      h_update_datetime = Some ''2025-01-01T10:04:00'',
      h_retrieved_at = ''2025-01-01T02:05:00Z''\<rparr>], 0)"
  using history_unique
    [of "[Availability True True ''2025-01-01T02:05:00Z'' feed_acb,
          Rates 2 10 5 ''2025-01-01T02:06:00Z'',
          Availability True False ''2025-01-01T02:10:00Z'' feed_acb]"
        "''ACB''" "''C''" "''2025-01-01T10:04:00''"
        "[\<lparr>h_carpark_number = Some ''ACB'', h_lot_type = Some ''C'', h_lots_available = 7,
           h_update_datetime = Some ''2025-01-01T10:04:00'',
           h_retrieved_at = ''2025-01-01T02:05:00Z''\<rparr>]"
        7 "''2025-01-01T02:10:00Z''"]
  by (simp add: h_key_def)

text \<open>
  The claim as stated fails. A feed that leaves \<open>update_datetime\<close> out is accepted
  and committed; the column is NULL, the unique index takes the NULLs for distinct,
  and after two cycles the history holds two rows with the same
  \<open>(carpark_number, lot_type, update_datetime)\<close>. So it is with a feed that leaves
  \<open>carpark_number\<close> or \<open>lot_type\<close> out.
\<close>

theorem history_unique_counterexample:
  "map h_key (history (run_jobs
      [Availability True True ''2025-01-01T02:05:00Z'' feed_undated,
       Availability True True ''2025-01-01T02:10:00Z'' feed_undated])) =
   [(Some ''ACB'', Some ''C'', None), (Some ''ACB'', Some ''C'', None)] \<and>
   map h_retrieved_at (history (run_jobs
      [Availability True True ''2025-01-01T02:05:00Z'' feed_undated,
       Availability True True ''2025-01-01T02:10:00Z'' feed_undated])) =
   [''2025-01-01T02:05:00Z'', ''2025-01-01T02:10:00Z''] \<and>
   map h_key (history (run_jobs
      [Availability True True ''2025-01-01T02:05:00Z'' feed_unkeyed,
       Availability True True ''2025-01-01T02:10:00Z'' feed_unkeyed])) =
   [(None, Some ''C'', Some ''2025-01-01T10:04:00''),
    (Some ''ACB'', None, Some ''2025-01-01T10:04:00''),
    (None, Some ''C'', Some ''2025-01-01T10:04:00''),
    (Some ''ACB'', None, Some ''2025-01-01T10:04:00'')]"
  by (simp add: run_jobs_def update_carpark_availability_def empty_store_def cycle_eval
      feed_undated_def feed_unkeyed_def)

section \<open>The time-window pricing pass\<close>

lemma price_row_map: "price_row wk hh mm now x tbl = map (price_step wk hh mm now x) tbl"
  by (cases x) (simp add: price_row_def price_step_def Let_def)

lemma fold_price_row:
  "fold (price_row wk hh mm now) xs tbl = map (fold (price_step wk hh mm now) xs) tbl"
  by (induction xs arbitrary: tbl) (simp_all add: price_row_map)

lemma price_step_key [simp]: "i_carpark_number (price_step wk hh mm now x r) = i_carpark_number r"
  by (simp add: price_step_def)

lemma fold_price_step_key [simp]:
  "i_carpark_number (fold (price_step wk hh mm now) xs r) = i_carpark_number r"
  by (induction xs arbitrary: r) simp_all

lemma fold_price_step_other:
  "i_carpark_number r \<notin> fst ` set xs \<Longrightarrow> fold (price_step wk hh mm now) xs r = r"
  by (induction xs arbitrary: r) (auto simp: price_step_def)

lemma fold_price_step_own:
  assumes "r \<in> set tbl" "distinct (map i_carpark_number tbl)"
  shows "fold (price_step wk hh mm now) (map fetch_row tbl) r = price_step wk hh mm now (fetch_row r) r"
proof -
  from assms(1) obtain ys zs where t: "tbl = ys @ r # zs" by (meson split_list)
  with assms(2) have ny: "i_carpark_number r \<notin> i_carpark_number ` set ys"
    and nz: "i_carpark_number r \<notin> i_carpark_number ` set zs" by auto
  have fy: "fst ` set (map fetch_row ys) = i_carpark_number ` set ys"
    and fz: "fst ` set (map fetch_row zs) = i_carpark_number ` set zs"
    by (auto simp: fetch_row_def image_iff)
  have 1: "fold (price_step wk hh mm now) (map fetch_row ys) r = r"
    by (rule fold_price_step_other) (simp only: fy ny not_False_eq_True)
  have 2: "fold (price_step wk hh mm now) (map fetch_row zs) (price_step wk hh mm now (fetch_row r) r)
             = price_step wk hh mm now (fetch_row r) r"
    by (rule fold_price_step_other) (simp only: fz nz price_step_key not_False_eq_True)
  show ?thesis by (simp add: t 1 2)
qed

lemma refresh_rows:
  "distinct (map i_carpark_number tbl) \<Longrightarrow>
   refresh_time_dependent_rates wk hh mm now tbl =
     map (\<lambda>r. price_step wk hh mm now (fetch_row r) r) tbl"
  unfolding refresh_time_dependent_rates_def
  using fold_price_row[of wk hh mm now "map fetch_row tbl" tbl] fold_price_step_own[of _ tbl wk hh mm now]
  by (simp add: fetch_row_def[abs_def])

lemma in_night_minutes: "mm < 60 \<Longrightarrow> in_night hh mm \<longleftrightarrow> (1350 \<le> 60 * hh + mm \<or> 60 * hh + mm < 420)"
  unfolding in_night_def by arith

lemma in_day_minutes: "mm < 60 \<Longrightarrow> in_day hh mm \<longleftrightarrow> (420 \<le> 60 * hh + mm \<and> 60 * hh + mm < 1350)"
  unfolding in_day_def by arith

text \<open>
  Claim C4. For every table of facilities (the primary key holds: the carpark
  numbers are distinct) and every civil time, weekday \<open>wk\<close> with Monday 0, hour
  \<open>hh\<close> and minute \<open>mm\<close> below 60, the time-window pass writes to every facility:
  \<open>current_rate_30min\<close> 1.2 when the facility is central, the day is Monday to
  Saturday and \<open>7 \<le> hh < 17\<close>, else 0.6; the cap \<open>(NPS_NIGHT_CAP, 5.0)\<close> when its
  \<open>night_parking\<close> starts with YES and the time is in the night window from 22:30
  to 07:00, else \<open>(DAY_CAP, 20.0)\<close> for a central and \<open>(DAY_CAP, 12.0)\<close> for another
  facility when the time is in the day window from 07:00 to 22:30, else both cap
  columns NULL. The windows are stated in minutes since midnight. The witness is
  the two vectors of the specification: a central facility with night parking on a
  Wednesday at 10:00 and at 23:00.
\<close>

theorem time_window_pricing:
  assumes "distinct (map i_carpark_number tbl)" and "mm < 60"
  shows "refresh_time_dependent_rates wk hh mm now tbl =
     map (\<lambda>r. r\<lparr>i_current_rate_30min :=
                   Some (if central_flag (i_is_central r) \<and> wk \<le> 5 \<and> 7 \<le> hh \<and> hh < 17
                         then 1.2 else 0.6),
                 i_active_cap_type :=
                   (if nps_of (s_night_parking (i_static r)) \<and>
                       (22 * 60 + 30 \<le> 60 * hh + mm \<or> 60 * hh + mm < 7 * 60)
                    then Some ''NPS_NIGHT_CAP''
                    else if 7 * 60 \<le> 60 * hh + mm \<and> 60 * hh + mm < 22 * 60 + 30
                         then Some ''DAY_CAP'' else None),
                 i_active_cap_amount :=
                   (if nps_of (s_night_parking (i_static r)) \<and>
                       (22 * 60 + 30 \<le> 60 * hh + mm \<or> 60 * hh + mm < 7 * 60)
                    then Some 5.0
                    else if 7 * 60 \<le> 60 * hh + mm \<and> 60 * hh + mm < 22 * 60 + 30
                         then Some (if central_flag (i_is_central r) then 20.0 else 12.0)
                         else None),
                 i_rate_updated_at := Some now\<rparr>) tbl"
proof -
  have n: "in_night hh mm \<longleftrightarrow> (22 * 60 + 30 \<le> 60 * hh + mm \<or> 60 * hh + mm < 7 * 60)"
    using in_night_minutes[OF assms(2), of hh] by simp
  have d: "in_day hh mm \<longleftrightarrow> (7 * 60 \<le> 60 * hh + mm \<and> 60 * hh + mm < 22 * 60 + 30)"
    using in_day_minutes[OF assms(2), of hh] by simp
  show ?thesis
    unfolding refresh_rows[OF assms(1)]
    by (rule map_cong) (simp_all add: price_step_def fetch_row_def current_rate_of_def cap_of_def n d)
qed

lemma nps_yes: "nps_of (Some ''YES'')"
  by (simp add: nps_of_def py_strip_def py_upper_def upper_char_def startswith_def py_isspace_def)

theorem time_window_pricing_witness:
  "refresh_time_dependent_rates 2 10 0 ''2025-01-01T02:00:00Z'' [info_acb] =
     [info_acb\<lparr>i_current_rate_30min := Some 1.2, i_active_cap_type := Some ''DAY_CAP'',
               i_active_cap_amount := Some 20.0,
               i_rate_updated_at := Some ''2025-01-01T02:00:00Z''\<rparr>] \<and>
   refresh_time_dependent_rates 2 23 0 ''2025-01-01T15:00:00Z'' [info_acb] =
     [info_acb\<lparr>i_current_rate_30min := Some 0.6, i_active_cap_type := Some ''NPS_NIGHT_CAP'',
               i_active_cap_amount := Some 5.0,
               i_rate_updated_at := Some ''2025-01-01T15:00:00Z''\<rparr>]"
  using time_window_pricing[of "[info_acb]" 0 2 10 "''2025-01-01T02:00:00Z''"]
    time_window_pricing[of "[info_acb]" 0 2 23 "''2025-01-01T15:00:00Z''"]
  by (simp add: info_acb_def null_static_def central_flag_def nps_yes)

section \<open>The metadata full replace\<close>

lemma insert_info_records_pricing:
  "insert_info_records now recs tbl n = Inr (tbl', n') \<Longrightarrow>
   \<forall>r\<in>set tbl. i_is_central r = None \<and> i_carpark_rate r = None \<and> i_current_rate_30min r = None \<and>
       i_active_cap_type r = None \<and> i_active_cap_amount r = None \<and> i_rate_updated_at r = None \<Longrightarrow>
   \<forall>r\<in>set tbl'. i_is_central r = None \<and> i_carpark_rate r = None \<and> i_current_rate_30min r = None \<and>
       i_active_cap_type r = None \<and> i_active_cap_amount r = None \<and> i_rate_updated_at r = None"
proof (induction recs arbitrary: tbl n)
  case Nil
  then show ?case by simp
next
  case (Cons rec recs)
  show ?case
  proof (cases "record_cp rec = []")
    case True
    with Cons.prems(1) have "insert_info_records now recs tbl n = Inr (tbl', n')" by simp
    from Cons.IH[OF this Cons.prems(2)] show ?thesis .
  next
    case False
    with Cons.prems(1) have
      step: "insert_info_records now recs (tbl @ [info_row_of now (record_cp rec) rec]) (n + 1) = Inr (tbl', n')"
      by (simp add: Let_def split: if_splits)
    have "\<forall>r\<in>set (tbl @ [info_row_of now (record_cp rec) rec]).
        i_is_central r = None \<and> i_carpark_rate r = None \<and> i_current_rate_30min r = None \<and>
        i_active_cap_type r = None \<and> i_active_cap_amount r = None \<and> i_rate_updated_at r = None"
      using Cons.prems(2) by (simp add: info_row_of_def)
    from Cons.IH[OF step this] show ?thesis .
  qed
qed

text \<open>
  Claim C2, amended. The metadata full replace (\<open>DELETE FROM carpark_info\<close>, then
  one \<open>INSERT\<close> of the static columns for each record) does not carry the derived
  pricing columns over: after a replace that commits, \<open>is_central\<close>,
  \<open>carpark_rate\<close>, \<open>current_rate_30min\<close>, \<open>active_cap_type\<close>,
  \<open>active_cap_amount\<close> and \<open>rate_updated_at\<close> are NULL in every row, whatever they
  were before.
\<close>

theorem metadata_replace_resets_pricing:
  assumes "load_info_into_sqlite now recs tbl = (tbl', Inr n)"
  shows "\<forall>r\<in>set tbl'. i_is_central r = None \<and> i_carpark_rate r = None \<and>
           i_current_rate_30min r = None \<and> i_active_cap_type r = None \<and>
           i_active_cap_amount r = None \<and> i_rate_updated_at r = None"
proof -
  from assms have "insert_info_records now recs [] 0 = Inr (tbl', n)"
    by (auto simp: load_info_into_sqlite_def split: sum.splits)
  from insert_info_records_pricing[OF this] show ?thesis by simp
qed

lemma record_cp_acb: "record_cp record_acb = ''ACB''"
  by (simp add: record_cp_def record_acb_def rec_get_def py_or_def py_strip_def py_upper_def
      upper_char_def py_isspace_def)

lemma load_acb:
  "load_info_into_sqlite ''2025-01-02T00:00:00Z'' [record_acb] [info_acb_priced] =
   ([\<lparr>i_carpark_number = ''ACB'',
      i_static = \<lparr>s_address = Some ''BLK 270/271 ALBERT CENTRE'', s_x_coord = Some [], s_y_coord = Some [],
         s_car_park_type = Some [], s_type_of_parking_system = Some [], s_short_term_parking = Some [],
         s_free_parking = Some [], s_night_parking = Some ''YES'', s_car_park_decks = Some [],
         s_gantry_height = Some [], s_car_park_basement = Some []\<rparr>,
      i_updated_at = Some ''2025-01-02T00:00:00Z'',
      i_is_central = None, i_carpark_rate = None, i_current_rate_30min = None,
      i_active_cap_type = None, i_active_cap_amount = None, i_rate_updated_at = None\<rparr>], Inr 1)"
  by (simp add: load_info_into_sqlite_def record_cp_acb info_row_of_def Let_def)
     (simp add: record_acb_def rec_get_default_def)

text \<open>
  The claim as stated fails: \<open>ACB\<close> is in the table before and after the replace,
  and its pricing columns, set before, are NULL after.
\<close>

theorem metadata_replace_resets_pricing_counterexample:
  "map i_carpark_number [info_acb_priced] = [''ACB''] \<and>
   map i_is_central [info_acb_priced] = [Some 1] \<and>
   map i_carpark_rate [info_acb_priced] = [Some 1.2] \<and>
   map i_current_rate_30min [info_acb_priced] = [Some 1.2] \<and>
   map i_carpark_number (fst (load_info_into_sqlite ''2025-01-02T00:00:00Z'' [record_acb] [info_acb_priced])) = [''ACB''] \<and>
   map i_is_central (fst (load_info_into_sqlite ''2025-01-02T00:00:00Z'' [record_acb] [info_acb_priced])) = [None] \<and>
   map i_carpark_rate (fst (load_info_into_sqlite ''2025-01-02T00:00:00Z'' [record_acb] [info_acb_priced])) = [None] \<and>
   map i_current_rate_30min (fst (load_info_into_sqlite ''2025-01-02T00:00:00Z'' [record_acb] [info_acb_priced])) = [None]"
  by (simp add: load_acb) (simp add: info_acb_priced_def info_acb_def)

theorem metadata_replace_resets_pricing_witness:
  "snd (load_info_into_sqlite ''2025-01-02T00:00:00Z'' [record_acb] [info_acb_priced]) = Inr 1 \<and>
   map i_active_cap_type (fst (load_info_into_sqlite ''2025-01-02T00:00:00Z'' [record_acb] [info_acb_priced])) = [None] \<and>
   map i_active_cap_amount (fst (load_info_into_sqlite ''2025-01-02T00:00:00Z'' [record_acb] [info_acb_priced])) = [None] \<and>
   map i_rate_updated_at (fst (load_info_into_sqlite ''2025-01-02T00:00:00Z'' [record_acb] [info_acb_priced])) = [None]"
  using metadata_replace_resets_pricing[of "''2025-01-02T00:00:00Z''" "[record_acb]" "[info_acb_priced]"
      "fst (load_info_into_sqlite ''2025-01-02T00:00:00Z'' [record_acb] [info_acb_priced])" 1]
  by (simp add: load_acb)


section \<open>The rebuild of the joined view\<close>

lemma sql_max_replicate: "0 < n \<Longrightarrow> sql_max (replicate n x) = x"
proof (induction n)
  case 0
  then show ?case by simp
next
  case (Suc n)
  show ?case
  proof (cases n)
    case 0
    then show ?thesis by (cases x) simp_all
  next
    case (Suc m)
    with Suc.IH have "sql_max (replicate n x) = x" by simp
    then show ?thesis by (cases x) simp_all
  qed
qed

lemma sql_max_None_iff: "sql_max vs = None \<longleftrightarrow> (\<forall>v\<in>set vs. v = None)"
  by (induction vs) (auto split: option.splits)

lemma cache_lookup_None [simp]: "cache_lookup c None = None"
  by (simp add: cache_lookup_def)

lemma cache_lookup_ev_cache:
  "cache_lookup (ev_cache v) (Some c) =
     (if Some c \<in> j_carpark_number ` set v
      then sql_max (map j_ev_lot_location (filter (\<lambda>r. j_carpark_number r = Some c) v))
      else None)"
proof -
  have "map_of (map (\<lambda>k. (k, f k)) ks) cp = (if cp \<in> set ks then Some (f cp) else None)"
    for f :: "string option \<Rightarrow> string option" and ks cp
    by (induction ks) auto
  then show ?thesis
    by (simp add: cache_lookup_def ev_cache_def)
qed

lemma cache_lookup_absent:
  "cache_lookup (ev_cache v) (Some c) =
     sql_max (map j_ev_lot_location (filter (\<lambda>r. j_carpark_number r = Some c) v))"
proof (cases "Some c \<in> j_carpark_number ` set v")
  case True
  then show ?thesis by (simp add: cache_lookup_ev_cache)
next
  case False
  then have "filter (\<lambda>r. j_carpark_number r = Some c) v = []"
    by (force simp: filter_empty_conv image_iff)
  with False show ?thesis by (simp add: cache_lookup_ev_cache)
qed

lemma snapshot_select_ev [simp]: "j_ev_lot_location (snapshot_select a m) = None"
  by (simp add: snapshot_select_def)

lemma join_rows_ev:
  "r \<in> set (case join_matches a tbl of [] \<Rightarrow> [snapshot_select a None]
            | ms \<Rightarrow> map (\<lambda>i. snapshot_select a (Some i)) ms) \<Longrightarrow> j_ev_lot_location r = None"
  by (cases "join_matches a tbl") auto

lemma left_join_ev:
  "r \<in> set (left_join snapshot_select av tbl) \<Longrightarrow> j_ev_lot_location r = None"
  unfolding left_join_def using join_rows_ev by auto

lemma left_join_numbers:
  "j_carpark_number ` set (left_join snapshot_select av tbl) = a_carpark_number ` set av"
proof -
  have "j_carpark_number ` set (case join_matches a tbl of [] \<Rightarrow> [snapshot_select a None]
            | ms \<Rightarrow> map (\<lambda>i. snapshot_select a (Some i)) ms) = {a_carpark_number a}" for a
    by (cases "join_matches a tbl") (auto simp: snapshot_select_def)
  then show ?thesis
    unfolding left_join_def by (auto simp: image_UN)
qed

lemma restore_ev_fresh:
  "\<forall>r\<in>set rows. j_ev_lot_location r = None \<Longrightarrow>
   restore_ev c rows = map (\<lambda>j. j\<lparr>j_ev_lot_location := cache_lookup c (j_carpark_number j)\<rparr>) rows"
  by (simp add: restore_ev_def coalesce_def split: option.splits)

lemma restored_lookup:
  assumes "cp \<in> j_carpark_number ` set rows" and null: "L None = None"
  shows "cache_lookup (ev_cache (map (\<lambda>j. j\<lparr>j_ev_lot_location := L (j_carpark_number j)\<rparr>) rows)) cp = L cp"
proof (cases cp)
  case None
  with null show ?thesis by simp
next
  case (Some c)
  let ?v = "map (\<lambda>j. j\<lparr>j_ev_lot_location := L (j_carpark_number j)\<rparr>) rows"
  have f: "filter (\<lambda>r. j_carpark_number r = cp) ?v =
           map (\<lambda>j. j\<lparr>j_ev_lot_location := L (j_carpark_number j)\<rparr>) (filter (\<lambda>r. j_carpark_number r = cp) rows)"
    by (simp add: filter_map o_def)
  have "map j_ev_lot_location (filter (\<lambda>r. j_carpark_number r = cp) ?v) =
        replicate (length (filter (\<lambda>r. j_carpark_number r = cp) rows)) (L cp)"
    unfolding f by (simp add: map_replicate_const[symmetric] o_def cong: map_cong)
  moreover have "0 < length (filter (\<lambda>r. j_carpark_number r = cp) rows)"
    using assms(1) by (auto simp: filter_empty_conv)
  ultimately show ?thesis
    unfolding Some by (simp add: cache_lookup_absent sql_max_replicate)
qed

lemmas join_eval = rebuild_join_snapshot_def rebuild_join_table_def insert_joined_def left_join_def
  join_matches_def sql_eq_def norm_key_def sql_trim_def sql_upper_def upper_char_def j_key_def
  ev_cache_def cache_lookup_def restore_ev_def coalesce_def snapshot_select_def table_select_def
  row_acb_def row_bbb_def info_acb_def null_static_def Let_def

text \<open>
  Claim C7. \<open>rebuild_join_snapshot\<close> is idempotent: on every snapshot table,
  metadata table and view, a second run on the view that the first run left, with
  both tables as they were, gives the same outcome and the same view, row for row,
  the values of \<open>ev_lot_location\<close> that went through the cache included.
\<close>

theorem rebuild_idempotent:
  "rebuild_join_snapshot av tbl (fst (rebuild_join_snapshot av tbl v)) = rebuild_join_snapshot av tbl v"
proof (cases "insert_joined (left_join snapshot_select av tbl)")
  case (Inl e)
  then show ?thesis by (simp add: rebuild_join_snapshot_def)
next
  case (Inr rows)
  then have rows: "rows = left_join snapshot_select av tbl"
    by (simp add: insert_joined_def split: if_splits)
  have fresh: "\<forall>r\<in>set rows. j_ev_lot_location r = None"
    unfolding rows using left_join_ev by blast
  let ?L = "\<lambda>c. cache_lookup (ev_cache c)"
  let ?v1 = "map (\<lambda>j. j\<lparr>j_ev_lot_location := ?L v (j_carpark_number j)\<rparr>) rows"
  have 1: "rebuild_join_snapshot av tbl v = (?v1, None)"
    using Inr by (simp add: rebuild_join_snapshot_def restore_ev_fresh[OF fresh])
  have 2: "rebuild_join_snapshot av tbl ?v1 =
             (map (\<lambda>j. j\<lparr>j_ev_lot_location := ?L ?v1 (j_carpark_number j)\<rparr>) rows, None)"
    using Inr by (simp add: rebuild_join_snapshot_def restore_ev_fresh[OF fresh])
  have "map (\<lambda>j. j\<lparr>j_ev_lot_location := ?L ?v1 (j_carpark_number j)\<rparr>) rows = ?v1"
    by (rule map_cong) (simp_all add: restored_lookup)
  with 1 2 show ?thesis by simp
qed

theorem rebuild_idempotent_witness:
  "map j_ev_lot_location (fst (rebuild_join_snapshot [row_bbb, row_acb] [info_acb] view_annotated))
     = [None, Some ''Deck 2A''] \<and>
   rebuild_join_snapshot [row_bbb, row_acb] [info_acb]
     (fst (rebuild_join_snapshot [row_bbb, row_acb] [info_acb] view_annotated)) =
   rebuild_join_snapshot [row_bbb, row_acb] [info_acb] view_annotated"
  using rebuild_idempotent[of "[row_bbb, row_acb]" "[info_acb]" view_annotated]
  by (simp add: join_eval view_annotated_def)

text \<open>
  Claim C1, amended. For every state of the view and every rebuild by
  \<open>rebuild_join_snapshot\<close> (the availability and pricing drivers) that commits, a
  facility that had an \<open>ev_lot_location\<close> that is not NULL in some row of the view
  before the rebuild, and that has a row in the snapshot table, has rows in the
  view after the rebuild, and each of them holds the value carried forward, which
  is not NULL: the greatest of the facility's values before the rebuild.
\<close>

theorem annotation_carried_forward:
  assumes run: "rebuild_join_snapshot av tbl v = (v', None)"
    and had: "r \<in> set v" "j_carpark_number r = Some cp" "j_ev_lot_location r \<noteq> None"
    and still: "a \<in> set av" "a_carpark_number a = Some cp"
  shows "(\<exists>r'\<in>set v'. j_carpark_number r' = Some cp) \<and>
         (\<forall>r'\<in>set v'. j_carpark_number r' = Some cp \<longrightarrow>
            j_ev_lot_location r' \<noteq> None \<and>
            j_ev_lot_location r' =
              sql_max (map j_ev_lot_location (filter (\<lambda>r. j_carpark_number r = Some cp) v)))"
proof -
  from run obtain rows where ins: "insert_joined (left_join snapshot_select av tbl) = Inr rows"
    and v': "v' = restore_ev (ev_cache v) rows"
    by (auto simp: rebuild_join_snapshot_def Let_def split: sum.splits)
  from ins have rows: "rows = left_join snapshot_select av tbl"
    by (simp add: insert_joined_def split: if_splits)
  have fresh: "\<forall>r\<in>set rows. j_ev_lot_location r = None"
    unfolding rows using left_join_ev by blast
  have v1: "v' = map (\<lambda>j. j\<lparr>j_ev_lot_location := cache_lookup (ev_cache v) (j_carpark_number j)\<rparr>) rows"
    unfolding v' by (rule restore_ev_fresh[OF fresh])
  have nums: "j_carpark_number ` set v' = a_carpark_number ` set av"
    unfolding v1 using left_join_numbers[of av tbl] by (simp add: rows image_image)
  have ex: "\<exists>r'\<in>set v'. j_carpark_number r' = Some cp"
    using nums still by (metis (no_types, lifting) image_iff)
  have nn: "sql_max (map j_ev_lot_location (filter (\<lambda>r. j_carpark_number r = Some cp) v)) \<noteq> None"
    using had by (auto simp: sql_max_None_iff)
  have val: "j_ev_lot_location r' =
        sql_max (map j_ev_lot_location (filter (\<lambda>r. j_carpark_number r = Some cp) v))"
    if "r' \<in> set v'" "j_carpark_number r' = Some cp" for r'
    using that unfolding v1 by (auto simp: cache_lookup_absent)
  from ex nn val show ?thesis by simp
qed


theorem annotation_carried_forward_witness:
  "map j_carpark_number (fst (rebuild_join_snapshot [row_bbb, row_acb] [] view_annotated))
     = [Some ''BBB'', Some ''ACB''] \<and>
   map j_ev_lot_location (fst (rebuild_join_snapshot [row_bbb, row_acb] [] view_annotated))
     = [None, Some ''Deck 2A'']"
  using annotation_carried_forward[of "[row_bbb, row_acb]" "[]" view_annotated
      "fst (rebuild_join_snapshot [row_bbb, row_acb] [] view_annotated)"
      "(snapshot_select row_acb (Some info_acb))\<lparr>j_ev_lot_location := Some ''Deck 2A''\<rparr>"
      "''ACB''" row_acb]
  by (simp add: join_eval view_annotated_def)

text \<open>
  The claim as stated fails. The view holds an annotation for \<open>ACB\<close>. When the
  snapshot table has no row for \<open>ACB\<close> any more, \<open>rebuild_join_snapshot\<close> leaves the
  view without a row, and so without an annotation, for it; and
  \<open>rebuild_join_table\<close> (the metadata driver) reinserts the row of \<open>ACB\<close> with
  \<open>ev_lot_location\<close> NULL.
\<close>

theorem annotation_carried_forward_counterexample:
  "map j_carpark_number view_annotated = [Some ''ACB'', Some ''BBB''] \<and>
   map j_ev_lot_location view_annotated = [Some ''Deck 2A'', None] \<and>
   rebuild_join_snapshot [row_bbb] [info_acb] view_annotated =
     ([snapshot_select row_bbb None], None) \<and>
   rebuild_join_table [row_acb, row_bbb] [info_acb] view_annotated =
     ([table_select row_acb (Some info_acb), table_select row_bbb None], Inr (1, 1, 2)) \<and>
   j_ev_lot_location (table_select row_acb (Some info_acb)) = None"
  by (simp add: join_eval view_annotated_def)

section \<open>The annotation merge is idempotent\<close>

lemma apply_default_map: "apply_default d v = map (default_step d) v"
  by (simp add: apply_default_def default_step_def)

lemma apply_entry_map: "apply_entry e v = map (entry_step e) v"
  by (cases e) (simp add: apply_entry_def entry_step_def)

lemma fold_apply_entry: "fold apply_entry m v = map (fold entry_step m) v"
  by (induction m arbitrary: v) (simp_all add: apply_entry_map)

lemma apply_ev_mapping_map:
  "apply_ev_mapping m d v = map (\<lambda>r. fold entry_step m (default_step d r)) v"
  by (simp add: apply_ev_mapping_def fold_apply_entry apply_default_map)

lemma sql_eq_Some [simp]: "sql_eq x (Some k) = (x = Some k)"
  by (auto simp: sql_eq_def)

lemma entry_step_number [simp]: "j_carpark_number (entry_step e r) = j_carpark_number r"
  by (simp add: entry_step_def)

lemma entry_for_update [simp]: "entry_for m (r\<lparr>j_ev_lot_location := x\<rparr>) = entry_for m r"
  by (simp add: entry_for_def)

lemma fold_entry_step:
  "fold entry_step m r =
     (case entry_for m r of
        None \<Rightarrow> r
      | Some ev \<Rightarrow> r\<lparr>j_ev_lot_location := Some ev\<rparr>)"
proof (induction m rule: rev_induct)
  case Nil
  then show ?case by (simp add: entry_for_def split: option.splits)
next
  case (snoc e m)
  obtain k ev where e: "e = (k, ev)" by (cases e) auto
  let ?x = "fold entry_step m r"
  let ?n = "map_option norm_key (j_carpark_number r)"
  have n: "j_carpark_number ?x = j_carpark_number r"
    unfolding snoc.IH by (simp split: option.splits)
  have "fold entry_step (m @ [e]) r = entry_step e ?x" by simp
  also have "\<dots> = (if ?n = Some k then ?x\<lparr>j_ev_lot_location := Some ev\<rparr> else ?x)"
    by (simp only: entry_step_def n e fst_conv snd_conv sql_eq_Some)
  also have "\<dots> = (case entry_for (m @ [e]) r of
                      None \<Rightarrow> r
                    | Some ev \<Rightarrow> r\<lparr>j_ev_lot_location := Some ev\<rparr>)"
    unfolding snoc.IH by (cases ?n) (auto simp: e entry_for_def split: option.splits)
  finally show ?case .
qed

lemma default_step_number [simp]: "j_carpark_number (default_step d r) = j_carpark_number r"
  by (simp add: default_step_def)

lemma entry_for_default [simp]: "entry_for m (default_step d r) = entry_for m r"
  by (simp add: entry_for_def)

lemma default_step_over [simp]:
  "(default_step d r)\<lparr>j_ev_lot_location := x\<rparr> = r\<lparr>j_ev_lot_location := x\<rparr>"
  by (simp add: default_step_def)

lemma default_step_idem [simp]: "default_step d (default_step d r) = default_step d r"
  by (simp add: default_step_def)

lemma default_step_nonblank:
  "\<not> sql_blank (Some ev) \<Longrightarrow>
   default_step d (r\<lparr>j_ev_lot_location := Some ev\<rparr>) = r\<lparr>j_ev_lot_location := Some ev\<rparr>"
  by (simp add: default_step_def)

lemma default_step_filled:
  "\<not> sql_blank (Some d) \<Longrightarrow> default_step d' (default_step d r) = default_step d r"
  by (simp add: default_step_def)

lemma merge_step_idem:
  "fold entry_step m (default_step d (fold entry_step m (default_step d r))) =
   fold entry_step m (default_step d r)"
  by (simp add: fold_entry_step split: option.splits)

lemma entry_for_nonblank:
  "nonblank_texts m \<Longrightarrow> entry_for m r = Some ev \<Longrightarrow> \<not> sql_blank (Some ev)"
proof -
  assume nb: "nonblank_texts m" and l: "entry_for m r = Some ev"
  from l obtain k where "map_of (rev m) k = Some ev"
    by (auto simp: entry_for_def split: option.splits)
  then have "(k, ev) \<in> set m" using map_of_SomeD by fastforce
  with nb show ?thesis by (auto simp: nonblank_texts_def list_all_iff)
qed

lemma rerun_step:
  "nonblank_texts m \<Longrightarrow>
   default_step d (fold entry_step m (default_step d r)) = fold entry_step m (default_step d r)"
  using entry_for_nonblank[of m r]
  by (simp add: fold_entry_step default_step_nonblank split: option.splits)

lemma rerun_step_filled:
  "nonblank_texts m \<Longrightarrow> \<not> sql_blank (Some d) \<Longrightarrow>
   default_step d' (fold entry_step m (default_step d r)) = fold entry_step m (default_step d r)"
  using entry_for_nonblank[of m r]
  by (simp add: fold_entry_step default_step_nonblank default_step_filled split: option.splits)

lemma sql_trim_Nil_iff: "sql_trim x = [] \<longleftrightarrow> (\<forall>c\<in>set x. c = CHR '' '')"
proof -
  let ?P = "\<lambda>c. c = CHR '' ''"
  have "sql_trim x = [] \<longleftrightarrow> (\<forall>c\<in>set (dropWhile ?P x). ?P c)"
    by (simp add: sql_trim_def dropWhile_eq_Nil_conv)
  also have "\<dots> \<longleftrightarrow> dropWhile ?P x = []"
  proof
    assume a: "\<forall>c\<in>set (dropWhile ?P x). ?P c"
    show "dropWhile ?P x = []"
    proof (rule ccontr)
      assume n: "dropWhile ?P x \<noteq> []"
      then have "\<not> ?P (hd (dropWhile ?P x))" by (rule hd_dropWhile)
      moreover have "hd (dropWhile ?P x) \<in> set (dropWhile ?P x)" using n by simp
      ultimately show False using a by blast
    qed
  next
    assume "dropWhile ?P x = []"
    then show "\<forall>c\<in>set (dropWhile ?P x). ?P c" by (simp only: list.set ball_empty)
  qed
  also have "\<dots> \<longleftrightarrow> (\<forall>c\<in>set x. ?P c)" by (simp add: dropWhile_eq_Nil_conv)
  finally show ?thesis .
qed

lemma py_strip_nonblank: "py_strip s \<noteq> [] \<Longrightarrow> \<not> sql_blank (Some (py_strip s))"
proof -
  assume n: "py_strip s \<noteq> []"
  let ?y = "dropWhile py_isspace (rev (dropWhile py_isspace s))"
  from n have y: "?y \<noteq> []" by (simp add: py_strip_def)
  then have "\<not> py_isspace (hd ?y)" by (rule hd_dropWhile)
  moreover have "hd ?y \<in> set (py_strip s)" using y by (simp add: py_strip_def)
  moreover have "py_isspace (CHR '' '')" by (simp add: py_isspace_def)
  ultimately have "\<exists>c\<in>set (py_strip s). c \<noteq> CHR '' ''" by metis
  then show ?thesis by (simp add: sql_blank_def sql_trim_Nil_iff)
qed

lemma load_ev_rows_nonblank:
  "nonblank_texts mapping \<Longrightarrow> nonblank_texts (load_ev_rows rows mapping)"
proof (induction rows arbitrary: mapping)
  case Nil
  then show ?case by simp
next
  case (Cons row rows)
  obtain cpf evf where row: "row = (cpf, evf)" by (cases row) auto
  let ?cp = "py_upper (py_strip (case py_or cpf (Some []) of None \<Rightarrow> [] | Some x \<Rightarrow> x))"
  let ?ev = "py_strip (case py_or evf (Some []) of None \<Rightarrow> [] | Some x \<Rightarrow> x)"
  show ?case
  proof (cases "?cp \<noteq> [] \<and> ?cp \<notin> set (map fst mapping) \<and> ?ev \<noteq> []")
    case True
    then have "\<not> sql_blank (Some ?ev)" using py_strip_nonblank by blast
    with Cons.prems have "nonblank_texts (mapping @ [(?cp, ?ev)])"
      by (simp add: nonblank_texts_def)
    from Cons.IH[OF this] True show ?thesis
      by (simp add: row Let_def)
  next
    case False
    then have "load_ev_rows (row # rows) mapping = load_ev_rows rows mapping"
      by (auto simp: row Let_def)
    with Cons.IH[OF Cons.prems] show ?thesis by simp
  qed
qed

lemmas merge_eval = apply_ev_mapping_def apply_default_def apply_entry_def sql_blank_def
  sql_eq_def norm_key_def sql_trim_def sql_upper_def upper_char_def snapshot_select_def
  row_acb_def row_bbb_def info_acb_def null_static_def

text \<open>
  Claim C8. The merge sets every row of the view to the text that the mapping holds
  for its normalized number, whatever the row held, and a row for which the
  mapping holds none to the default when its annotation is NULL or blank, leaving
  it as it is otherwise. For every view, mapping and default text, applying the
  merge twice with the same mapping and default gives what applying it once gives.
  After a run, running it again with the empty mapping leaves every row as it is:
  for every mapping that \<open>_load_ev_mapping_csv\<close> builds from a sheet (the mappings
  that reach \<open>_apply_ev_mapping\<close>), and for every mapping that holds no blank text;
  with the default of the run, and with any other default when the default of the
  run is not blank; and so for the handler run again on an empty sheet.
\<close>

theorem annotation_merge_idempotent:
  "apply_ev_mapping m d v =
     map (\<lambda>r. case entry_for m r of
                 Some ev \<Rightarrow> r\<lparr>j_ev_lot_location := Some ev\<rparr>
               | None \<Rightarrow> if sql_blank (j_ev_lot_location r)
                         then r\<lparr>j_ev_lot_location := Some d\<rparr> else r) v \<and>
   apply_ev_mapping m d (apply_ev_mapping m d v) = apply_ev_mapping m d v \<and>
   apply_ev_mapping [] d (apply_ev_mapping (load_ev_rows sheet []) d v) =
     apply_ev_mapping (load_ev_rows sheet []) d v \<and>
   (nonblank_texts m \<longrightarrow> apply_ev_mapping [] d (apply_ev_mapping m d v) = apply_ev_mapping m d v) \<and>
   (\<not> sql_blank (Some d) \<longrightarrow>
      apply_ev_mapping [] d' (apply_ev_mapping (load_ev_rows sheet []) d v) =
        apply_ev_mapping (load_ev_rows sheet []) d v) \<and>
   ingest_ev_locations [] event_default (ingest_ev_locations sheet event_default s) =
     ingest_ev_locations sheet event_default s"
proof -
  have 0: "apply_ev_mapping m d v =
     map (\<lambda>r. case entry_for m r of
                 Some ev \<Rightarrow> r\<lparr>j_ev_lot_location := Some ev\<rparr>
               | None \<Rightarrow> if sql_blank (j_ev_lot_location r)
                         then r\<lparr>j_ev_lot_location := Some d\<rparr> else r) v"
    unfolding apply_ev_mapping_map
    by (rule map_cong) (simp_all add: fold_entry_step default_step_def split: option.splits)
  have 1: "apply_ev_mapping m d (apply_ev_mapping m d v) = apply_ev_mapping m d v" for m
    by (simp add: apply_ev_mapping_map o_def merge_step_idem)
  have 2: "apply_ev_mapping [] d (apply_ev_mapping m d v) = apply_ev_mapping m d v"
    if "nonblank_texts m" for m d v
    using rerun_step[OF that]
    by (simp add: apply_ev_mapping_map o_def)
  have 3: "apply_ev_mapping [] d' (apply_ev_mapping m d v) = apply_ev_mapping m d v"
    if "nonblank_texts m" "\<not> sql_blank (Some d)" for m
    using rerun_step_filled[OF that]
    by (simp add: apply_ev_mapping_map o_def)
  have nb: "nonblank_texts (load_ev_rows sheet [])"
    by (rule load_ev_rows_nonblank) (simp add: nonblank_texts_def)
  have 4: "ingest_ev_locations [] event_default (ingest_ev_locations sheet event_default s) =
           ingest_ev_locations sheet event_default s"
    by (simp add: ingest_ev_locations_def Let_def 2[OF nb])
  from 0 1[of m] 2[OF nb, of d v] 2[of m d v] 3[OF nb] 4 show ?thesis by blast
qed

theorem annotation_merge_idempotent_witness:
  "load_ev_rows [(Some '' acb'', Some ''L1 ''), (Some ''ACB'', Some ''L2''),
                 (Some ''BBB'', Some '' '')] [] = [(''ACB'', ''L1'')] \<and>
   map j_ev_lot_location (apply_ev_mapping [(''ACB'', ''L1'')] ''None'' view_blank)
     = [Some ''L1'', Some ''None''] \<and>
   apply_ev_mapping [(''ACB'', ''L1'')] ''None''
       (apply_ev_mapping [(''ACB'', ''L1'')] ''None'' view_blank)
     = apply_ev_mapping [(''ACB'', ''L1'')] ''None'' view_blank \<and>
   apply_ev_mapping [] ''None'' (apply_ev_mapping [(''ACB'', ''L1'')] ''None'' view_blank)
     = apply_ev_mapping [(''ACB'', ''L1'')] ''None'' view_blank"
proof -
  have l: "load_ev_rows [(Some '' acb'', Some ''L1 ''), (Some ''ACB'', Some ''L2''),
                 (Some ''BBB'', Some '' '')] [] = [(''ACB'', ''L1'')]"
    by code_simp
  have v: "map j_ev_lot_location (apply_ev_mapping [(''ACB'', ''L1'')] ''None'' view_blank)
     = [Some ''L1'', Some ''None'']"
    by (simp add: merge_eval view_blank_def)
  have nb: "nonblank_texts [(''ACB'', ''L1'')]"
    by (simp add: nonblank_texts_def sql_blank_def sql_trim_def)
  from nb annotation_merge_idempotent[of "[(''ACB'', ''L1'')]" "''None''" view_blank]
  have "apply_ev_mapping [(''ACB'', ''L1'')] ''None''
       (apply_ev_mapping [(''ACB'', ''L1'')] ''None'' view_blank)
     = apply_ev_mapping [(''ACB'', ''L1'')] ''None'' view_blank \<and>
   apply_ev_mapping [] ''None'' (apply_ev_mapping [(''ACB'', ''L1'')] ''None'' view_blank)
     = apply_ev_mapping [(''ACB'', ''L1'')] ''None'' view_blank"
    by blast
  with l v show ?thesis by (simp only: simp_thms)
qed

end
